theory Spec2Isabelle
  imports Complex_Main "HOL-Library.Product_Lexorder" "HOL-Library.Multiset"
begin

section \<open>Calendar dates as the Python standard library provides them\<close>

text \<open>
  \<^verbatim>\<open>app.py\<close> works on \<^verbatim>\<open>datetime.date\<close> values and asks \<^verbatim>\<open>calendar.monthrange\<close>
  for month lengths. Both belong to the Python standard library; the definitions of this
  section follow the library's documented behaviour, including every exception it raises.
\<close>

datatype error = ValueError | TypeError | OverflowError | IllegalMonthError | IntegrityError

record date =
  year :: int
  month :: int
  day :: int

text \<open>\<^verbatim>\<open>calendar.isleap\<close>: \<^verbatim>\<open>year % 4 == 0 and (year % 100 != 0 or year % 400 == 0)\<close>.\<close>

definition isleap :: "int \<Rightarrow> bool" where
  "isleap y = (y mod 4 = 0 \<and> (y mod 100 \<noteq> 0 \<or> y mod 400 = 0))"

text \<open>
  \<^verbatim>\<open>calendar.mdays = [0, 31, 28, 31, 30, 31, 30, 31, 31, 30, 31, 30, 31]\<close>, read at a month
  number in 1..12.
\<close>

definition mdays :: "int \<Rightarrow> int" where
  "mdays m = (if m = 2 then 28 else if m = 4 \<or> m = 6 \<or> m = 9 \<or> m = 11 then 30 else 31)"

text \<open>\<^verbatim>\<open>mdays[month] + (month == February and isleap(year))\<close>.\<close>

definition days_in_month :: "int \<Rightarrow> int \<Rightarrow> int" where
  "days_in_month y m = mdays m + (if m = 2 \<and> isleap y then 1 else 0)"

text \<open>
  \<^verbatim>\<open>calendar.monthrange(year, month)\<close> raises \<^verbatim>\<open>IllegalMonthError\<close> unless
  \<^verbatim>\<open>1 <= month <= 12\<close> and returns the pair (weekday of the first, number of days).
  The caller in \<^verbatim>\<open>app.py\<close> discards the weekday (\<^verbatim>\<open>_, last_day = ...\<close>), so only
  the second component is kept here.
\<close>

definition monthrange :: "int \<Rightarrow> int \<Rightarrow> error + int" where
  "monthrange y m = (if 1 \<le> m \<and> m \<le> 12 then Inr (days_in_month y m) else Inl IllegalMonthError)"

text \<open>
  Every \<^verbatim>\<open>datetime.date\<close> object satisfies \<^verbatim>\<open>MINYEAR = 1 <= year <= 9999 = MAXYEAR\<close>,
  \<^verbatim>\<open>1 <= month <= 12\<close> and \<^verbatim>\<open>1 <= day <= days in that month\<close>.
\<close>

definition valid_date :: "date \<Rightarrow> bool" where
  "valid_date dt =
     (1 \<le> year dt \<and> year dt \<le> 9999 \<and> 1 \<le> month dt \<and> month dt \<le> 12 \<and>
      1 \<le> day dt \<and> day dt \<le> days_in_month (year dt) (month dt))"

text \<open>
  The constructor \<^verbatim>\<open>datetime.date(year, month, day)\<close> of CPython first converts its three
  arguments to C \<^verbatim>\<open>int\<close>s and raises \<^verbatim>\<open>OverflowError\<close> when one of them does not fit in
  32 bits; it then raises \<^verbatim>\<open>ValueError\<close> unless the three numbers are a date.
\<close>

definition c_int :: "int \<Rightarrow> bool" where
  "c_int n = (- 2147483648 \<le> n \<and> n \<le> 2147483647)"

definition date_new :: "int \<Rightarrow> int \<Rightarrow> int \<Rightarrow> error + date" where
  "date_new y m d =
     (if \<not> (c_int y \<and> c_int m \<and> c_int d) then Inl OverflowError
      else if 1 \<le> y \<and> y \<le> 9999 \<and> 1 \<le> m \<and> m \<le> 12 \<and> 1 \<le> d \<and> d \<le> days_in_month y m
      then Inr \<lparr>year = y, month = m, day = d\<rparr>
      else Inl ValueError)"

text \<open>
  Dates compare as the tuples \<^verbatim>\<open>(year, month, day)\<close> do (\<^verbatim>\<open>date._cmp\<close>), that is,
  lexicographically.
\<close>

definition date_key :: "date \<Rightarrow> int \<times> int \<times> int" where
  "date_key dt = (year dt, month dt, day dt)"

definition date_le :: "date \<Rightarrow> date \<Rightarrow> bool" where
  "date_le a b = (date_key a \<le> date_key b)"

definition date_lt :: "date \<Rightarrow> date \<Rightarrow> bool" where
  "date_lt a b = (date_key a < date_key b)"

text \<open>
  \<^verbatim>\<open>date + timedelta(days=n)\<close> and \<^verbatim>\<open>date - timedelta(days=n)\<close> move \<^verbatim>\<open>n\<close> days along the
  proleptic Gregorian calendar and raise \<^verbatim>\<open>OverflowError\<close> when the result would leave
  \<^verbatim>\<open>date.min = 0001-01-01 .. date.max = 9999-12-31\<close>. They are modelled one day at a time.
\<close>

definition date_succ :: "date \<Rightarrow> error + date" where
  "date_succ dt =
     (if day dt < days_in_month (year dt) (month dt) then Inr (dt\<lparr>day := day dt + 1\<rparr>)
      else if month dt < 12 then Inr \<lparr>year = year dt, month = month dt + 1, day = 1\<rparr>
      else if year dt < 9999 then Inr \<lparr>year = year dt + 1, month = 1, day = 1\<rparr>
      else Inl OverflowError)"

definition date_pred :: "date \<Rightarrow> error + date" where
  "date_pred dt =
     (if 1 < day dt then Inr (dt\<lparr>day := day dt - 1\<rparr>)
      else if 1 < month dt
        then Inr \<lparr>year = year dt, month = month dt - 1,
                  day = days_in_month (year dt) (month dt - 1)\<rparr>
      else if 1 < year dt then Inr \<lparr>year = year dt - 1, month = 12, day = 31\<rparr>
      else Inl OverflowError)"

fun date_add_days :: "date \<Rightarrow> nat \<Rightarrow> error + date" where
  "date_add_days dt 0 = Inr dt"
| "date_add_days dt (Suc n) =
     (case date_succ dt of Inl e \<Rightarrow> Inl e | Inr dt' \<Rightarrow> date_add_days dt' n)"

fun date_sub_days :: "date \<Rightarrow> nat \<Rightarrow> error + date" where
  "date_sub_days dt 0 = Inr dt"
| "date_sub_days dt (Suc n) =
     (case date_pred dt of Inl e \<Rightarrow> Inl e | Inr dt' \<Rightarrow> date_sub_days dt' n)"

text \<open>
  \<^verbatim>\<open>date.toordinal()\<close>: the day number counted from 0001-01-01 = 1
  (\<^verbatim>\<open>_days_before_year(y) + _days_before_month(y, m) + d\<close>). The day steps above are
  checked against it below.
\<close>

definition days_before_year :: "int \<Rightarrow> int" where
  "days_before_year y = (y - 1) * 365 + (y - 1) div 4 - (y - 1) div 100 + (y - 1) div 400"

definition days_before_month :: "int \<Rightarrow> int \<Rightarrow> int" where
  "days_before_month y m = (\<Sum>k\<leftarrow>[1..m - 1]. days_in_month y k)"

definition toordinal :: "date \<Rightarrow> int" where
  "toordinal dt = days_before_year (year dt) + days_before_month (year dt) (month dt) + day dt"

section \<open>The cycle resolver\<close>

text \<open>
  The nested helper of \<^verbatim>\<open>get_current_cycle_start\<close>:
  \<^verbatim>\<open>_, last_day = calendar.monthrange(y, m); return min(d, last_day)\<close>.
\<close>

definition get_actual_day :: "int \<Rightarrow> int \<Rightarrow> int \<Rightarrow> error + int" where
  "get_actual_day y m d =
     (case monthrange y m of Inl e \<Rightarrow> Inl e | Inr last_day \<Rightarrow> Inr (min d last_day))"

text \<open>
  \<^verbatim>\<open>get_current_cycle_start(day=8, today=None)\<close>. The first argument is what
  \<^verbatim>\<open>datetime.date.today()\<close> would return at the moment of the call; the function reads it
  exactly when \<^verbatim>\<open>today is None\<close>. Every call site of the repository passes \<^verbatim>\<open>day\<close>, so
  the default \<^verbatim>\<open>8\<close> is never used and \<^verbatim>\<open>day\<close> is a plain argument.
\<close>

definition get_current_cycle_start :: "date \<Rightarrow> int \<Rightarrow> date option \<Rightarrow> error + date" where
  "get_current_cycle_start clock d today_arg =
     (let today = (case today_arg of None \<Rightarrow> clock | Some t \<Rightarrow> t) in
      case get_actual_day (year today) (month today) d of
        Inl e \<Rightarrow> Inl e
      | Inr current_target_day \<Rightarrow>
          if day today \<ge> current_target_day
          then date_new (year today) (month today) current_target_day
          else
            (case date_new (year today) (month today) 1 of
               Inl e \<Rightarrow> Inl e
             | Inr first_of_this_month \<Rightarrow>
                 (case date_sub_days first_of_this_month 1 of
                    Inl e \<Rightarrow> Inl e
                  | Inr last_of_prev_month \<Rightarrow>
                      (case get_actual_day (year last_of_prev_month)
                              (month last_of_prev_month) d of
                         Inl e \<Rightarrow> Inl e
                       | Inr prev_target_day \<Rightarrow>
                           date_new (year last_of_prev_month) (month last_of_prev_month)
                             prev_target_day))))"

text \<open>
  The resolver as section 4.1 of the specification words it: the clamped day of today's month
  when today has reached it, otherwise the clamped day of the previous calendar month,
  which is December of the previous year when today is in January. It is compared with
  \<^const>\<open>get_current_cycle_start\<close> below.
\<close>

definition spec_cycle_start :: "int \<Rightarrow> date \<Rightarrow> date" where
  "spec_cycle_start d today =
     (if min d (days_in_month (year today) (month today)) \<le> day today
      then \<lparr>year = year today, month = month today,
             day = min d (days_in_month (year today) (month today))\<rparr>
      else if month today = 1
        then \<lparr>year = year today - 1, month = 12,
               day = min d (days_in_month (year today - 1) 12)\<rparr>
      else \<lparr>year = year today, month = month today - 1,
             day = min d (days_in_month (year today) (month today - 1))\<rparr>)"

text \<open>
  A date is a cycle start for anchor \<open>d\<close> when its day is the clamped anchor of its month;
  the first day of the calendar month after a given one; and the cycle start that follows
  a cycle start \<open>s\<close>: the clamped anchor of the next calendar month.
\<close>

definition is_cycle_start :: "int \<Rightarrow> date \<Rightarrow> bool" where
  "is_cycle_start d s = (valid_date s \<and> day s = min d (days_in_month (year s) (month s)))"

definition next_month :: "int \<times> int \<Rightarrow> int \<times> int" where
  "next_month ym = (if snd ym = 12 then (fst ym + 1, 1) else (fst ym, snd ym + 1))"

definition next_cycle_start :: "int \<Rightarrow> date \<Rightarrow> date" where
  "next_cycle_start d s =
     (let (y, m) = next_month (year s, month s)
      in \<lparr>year = y, month = m, day = min d (days_in_month y m)\<rparr>)"

section \<open>The database\<close>

text \<open>
  The three tables of \<^verbatim>\<open>models.py\<close>. Field names carry a prefix where two tables share
  a column name. A \<^verbatim>\<open>db.Float\<close> column holds a Python \<^verbatim>\<open>float\<close>, an IEEE 754 binary64
  number, infinities and NaN included. Their arithmetic is not part of this development:
  the type \<open>'f\<close> of the floats is a parameter of every table and of every route, and the
  three operations the application performs on floats are taken from a record of that
  type. A \<^verbatim>\<open>db.Time\<close> value is (hour, minute, second, microsecond). A table is the list
  of its rows in insertion order.
\<close>

type_synonym time_of_day = "nat \<times> nat \<times> nat \<times> nat"

text \<open>
  \<open>f_sum\<close> is \<^verbatim>\<open>sum(...)\<close> of a list of floats (the integer \<^verbatim>\<open>0\<close> for the empty list is
  its value there), \<open>f_sub\<close> is the subtraction \<^verbatim>\<open>a - b\<close>, and \<open>f_isnan\<close> tells whether a
  float is a NaN.
\<close>

record 'f float_ops =
  f_sum :: "'f list \<Rightarrow> 'f"
  f_sub :: "'f \<Rightarrow> 'f \<Rightarrow> 'f"
  f_isnan :: "'f \<Rightarrow> bool"

record user =
  u_id :: nat
  username :: string
  password_hash :: string
  salary_credit_day :: int

record 'f monthly_budget =
  b_id :: nat
  b_user_id :: nat
  month_start_date :: date
  salary_credited :: 'f

record 'f transaction =
  t_id :: nat
  t_user_id :: nat
  t_date :: date
  t_time :: time_of_day
  amount :: 'f
  description :: string

record 'f database =
  users :: "user list"
  budgets :: "'f monthly_budget list"
  transactions :: "'f transaction list"

definition empty_db :: "'f database" where
  "empty_db = \<lparr>users = [], budgets = [], transactions = []\<rparr>"

text \<open>
  An integer primary key left unset is assigned by the database on insert: one more than
  the largest key of the table. No route deletes a row.
\<close>

definition next_id :: "nat list \<Rightarrow> nat" where
  "next_id ids = Suc (fold max ids 0)"

text \<open>
  What the database of the default configuration (\<^verbatim>\<open>sqlite:///balance.db\<close>) refuses at
  \<^verbatim>\<open>db.session.commit()\<close>. An \<^verbatim>\<open>Integer\<close> column takes a signed 64-bit number; for any
  other Python integer binding the parameter raises \<^verbatim>\<open>OverflowError\<close>. A NaN is bound as
  \<^verbatim>\<open>NULL\<close>, and so is Python's \<^verbatim>\<open>None\<close>; every column of \<^verbatim>\<open>models.py\<close> is
  \<^verbatim>\<open>nullable=False\<close>, so the insert fails with \<^verbatim>\<open>IntegrityError\<close>. A refused commit stores
  nothing.
\<close>

definition sqlite_integer :: "int \<Rightarrow> bool" where
  "sqlite_integer n = (- 9223372036854775808 \<le> n \<and> n \<le> 9223372036854775807)"

section \<open>Requests and responses\<close>

datatype http_method = GET | POST

datatype flash =
    UsernameExists
  | ProfileUpdated
  | NoDataForMonth date
  | NoDataForCurrentCycle

text \<open>
  What \<^verbatim>\<open>index\<close> hands to \<^verbatim>\<open>index.html\<close>, and what \<^verbatim>\<open>download_statement\<close> prints into
  the PDF (the layout of the page and of the document is the presentation layer's).
\<close>

record 'f home_view =
  hv_budget :: "'f monthly_budget"
  hv_transactions :: "'f transaction list"
  hv_total_spent :: 'f
  hv_remaining_balance :: 'f
  hv_cycle_start :: date

record 'f statement =
  st_operator :: string
  st_cycle_start :: date
  st_allocation :: 'f
  st_total_spent :: 'f
  st_remaining_balance :: 'f
  st_rows :: "(date \<times> time_of_day \<times> string \<times> 'f) list"

datatype 'f response =
    Redirect string "flash list"
  | Render string
  | Home "'f home_view"
  | Statement "'f statement"
  | Raised error

text \<open>
  \<^verbatim>\<open>load_user\<close> and \<^verbatim>\<open>current_user\<close>: the session holds the id of the logged-in user, if
  any; \<^verbatim>\<open>@login_required\<close> sends everybody else to the login page.
\<close>

definition load_user :: "'f database \<Rightarrow> nat \<Rightarrow> user option" where
  "load_user db uid = find (\<lambda>u. u_id u = uid) (users db)"

definition current_user :: "'f database \<Rightarrow> nat option \<Rightarrow> user option" where
  "current_user db session = (case session of None \<Rightarrow> None | Some uid \<Rightarrow> load_user db uid)"

section \<open>The statement aggregator\<close>

text \<open>\<^verbatim>\<open>MonthlyBudget.query.filter_by(user_id=..., month_start_date=...).first()\<close>.\<close>

definition budget_for :: "'f database \<Rightarrow> nat \<Rightarrow> date \<Rightarrow> 'f monthly_budget option" where
  "budget_for db uid cycle_start =
     find (\<lambda>b. b_user_id b = uid \<and> month_start_date b = cycle_start) (budgets db)"

text \<open>
  The query of \<^verbatim>\<open>index\<close> (lines 81 to 87): the user's transactions from the cycle start
  on, \<^verbatim>\<open>order_by(Transaction.date.desc(), Transaction.time.desc())\<close>: latest first, and
  rows of equal date and time in insertion order. (Reversing the rows, sorting them
  upwards with a stable sort and reversing the result is a stable sort downwards.)
\<close>

definition open_cycle_transactions ::
  "'f database \<Rightarrow> nat \<Rightarrow> date \<Rightarrow> 'f transaction list" where
  "open_cycle_transactions db uid cycle_start =
     rev (sort_key (\<lambda>t. (date_key (t_date t), t_time t))
       (rev (filter (\<lambda>t. t_user_id t = uid \<and> date_le cycle_start (t_date t))
               (transactions db))))"

text \<open>
  The query of \<^verbatim>\<open>download_statement\<close> (lines 249 to 257): the user's transactions from
  the cycle start up to, but not including, the next cycle start, in date order.
\<close>

definition statement_transactions ::
  "'f database \<Rightarrow> nat \<Rightarrow> date \<Rightarrow> date \<Rightarrow> 'f transaction list" where
  "statement_transactions db uid cycle_start next_start =
     sort_key (\<lambda>t. date_key (t_date t))
       (filter (\<lambda>t. t_user_id t = uid \<and> date_le cycle_start (t_date t) \<and>
                     date_lt (t_date t) next_start) (transactions db))"

text \<open>
  \<^verbatim>\<open>total_spent = sum(t.amount for t in transactions)\<close> and
  \<^verbatim>\<open>remaining_balance = budget.salary_credited - total_spent\<close>, the same two lines in
  \<^verbatim>\<open>index\<close> (89, 90) and in \<^verbatim>\<open>download_statement\<close> (259, 260).
\<close>

definition aggregate ::
  "'f float_ops \<Rightarrow> 'f monthly_budget \<Rightarrow> 'f transaction list \<Rightarrow> 'f \<times> 'f" where
  "aggregate ops budget txs =
     (let total_spent = f_sum ops (map amount txs);
          remaining_balance = f_sub ops (salary_credited budget) total_spent
      in (total_spent, remaining_balance))"

definition index :: "'f float_ops \<Rightarrow> date \<Rightarrow> 'f database \<Rightarrow> nat option \<Rightarrow> 'f response" where
  "index ops clock db session =
     (case current_user db session of
        None \<Rightarrow> Redirect ''login'' []
      | Some cu \<Rightarrow>
          (case get_current_cycle_start clock (salary_credit_day cu) None of
             Inl e \<Rightarrow> Raised e
           | Inr cycle_start \<Rightarrow>
               (case budget_for db (u_id cu) cycle_start of
                  None \<Rightarrow> Redirect ''set_budget'' []
                | Some budget \<Rightarrow>
                    (let txs = open_cycle_transactions db (u_id cu) cycle_start;
                         (total_spent, remaining_balance) = aggregate ops budget txs
                     in Home \<lparr>hv_budget = budget, hv_transactions = txs,
                              hv_total_spent = total_spent,
                              hv_remaining_balance = remaining_balance,
                              hv_cycle_start = cycle_start\<rparr>))))"

text \<open>
  One row of the statement's table (lines 363 to 369): date, time, the first 45 characters
  of the description, and the amount.
\<close>

definition statement_row :: "'f transaction \<Rightarrow> date \<times> time_of_day \<times> string \<times> 'f" where
  "statement_row t = (t_date t, t_time t, take 45 (description t), amount t)"

text \<open>
  \<^verbatim>\<open>download_statement\<close>. \<^verbatim>\<open>year\<close> and \<^verbatim>\<open>month\<close> are \<^verbatim>\<open>request.args.get(..., type=int)\<close>:
  \<open>None\<close> when the parameter is absent or not an integer; \<^verbatim>\<open>if year and month\<close> also
  rejects 0. The first step selects the budget and the cycle start, or returns early.
  The answer \<open>Statement\<close> carries what lines 262 to 392 print. Strings are lists of 8-bit
  characters here; what the PDF library does with other text is not modelled.
\<close>

definition download_statement ::
  "'f float_ops \<Rightarrow> date \<Rightarrow> 'f database \<Rightarrow> nat option \<Rightarrow> int option \<Rightarrow> int option
     \<Rightarrow> 'f response" where
  "download_statement ops clock db session year_arg month_arg =
     (case current_user db session of
        None \<Rightarrow> Redirect ''login'' []
      | Some cu \<Rightarrow>
          (let selected =
             (if year_arg \<noteq> None \<and> year_arg \<noteq> Some 0 \<and> month_arg \<noteq> None \<and> month_arg \<noteq> Some 0
              then
                (case find (\<lambda>b. b_user_id b = u_id cu \<and>
                                 year (month_start_date b) = the year_arg \<and>
                                 month (month_start_date b) = the month_arg) (budgets db) of
                   None \<Rightarrow>
                     (case date_new (the year_arg) (the month_arg) 1 of
                        Inl e \<Rightarrow> Inl (Raised e)
                      | Inr first \<Rightarrow> Inl (Redirect ''index'' [NoDataForMonth first]))
                 | Some budget \<Rightarrow> Inr (budget, month_start_date budget))
              else
                (case get_current_cycle_start clock (salary_credit_day cu) None of
                   Inl e \<Rightarrow> Inl (Raised e)
                 | Inr cycle_start \<Rightarrow>
                     (case budget_for db (u_id cu) cycle_start of
                        None \<Rightarrow> Inl (Redirect ''index'' [NoDataForCurrentCycle])
                      | Some budget \<Rightarrow> Inr (budget, cycle_start))))
           in case selected of
                Inl early \<Rightarrow> early
              | Inr (budget, cycle_start) \<Rightarrow>
                  (case date_add_days cycle_start 32 of
                     Inl e \<Rightarrow> Raised e
                   | Inr next_month_date \<Rightarrow>
                       (case get_current_cycle_start clock (salary_credit_day cu)
                               (Some next_month_date) of
                          Inl e \<Rightarrow> Raised e
                        | Inr next_start \<Rightarrow>
                            (let txs = statement_transactions db (u_id cu) cycle_start next_start;
                                 (total_spent, remaining_balance) = aggregate ops budget txs
                             in Statement
                                  \<lparr>st_operator = username cu, st_cycle_start = cycle_start,
                                   st_allocation = salary_credited budget,
                                   st_total_spent = total_spent,
                                   st_remaining_balance = remaining_balance,
                                   st_rows = map statement_row txs\<rparr>)))))"

section \<open>The routes that write\<close>

text \<open>
  A form field converted by \<^verbatim>\<open>int(...)\<close> or \<^verbatim>\<open>float(...)\<close> arrives as the result of
  the conversion: the number, or the exception the conversion raises. The user name
  arrives as the string of the form and the password hashed. Each route returns the
  database it leaves behind and its response; a commit made before an exception stays.
\<close>

definition register ::
  "'f float_ops \<Rightarrow> date \<Rightarrow> 'f database \<Rightarrow> http_method \<Rightarrow> string \<Rightarrow> string \<Rightarrow> error + 'f
     \<Rightarrow> error + int \<Rightarrow> 'f database \<times> 'f response" where
  "register ops clock db method uname pw_hash salary billing_cycle =
     (if method = POST then
        (if find (\<lambda>u. username u = uname) (users db) \<noteq> None
         then (db, Redirect ''register'' [UsernameExists])
         else
           (case billing_cycle of
              Inl e \<Rightarrow> (db, Raised e)
            | Inr bc \<Rightarrow>
                (if \<not> sqlite_integer bc then (db, Raised OverflowError)
                 else
                   (let new_user = \<lparr>u_id = next_id (map u_id (users db)), username = uname,
                                    password_hash = pw_hash, salary_credit_day = bc\<rparr>;
                        db1 = db\<lparr>users := users db @ [new_user]\<rparr>
                    in case get_current_cycle_start clock bc None of
                         Inl e \<Rightarrow> (db1, Raised e)
                       | Inr cycle_start \<Rightarrow>
                           (case salary of
                              Inl e \<Rightarrow> (db1, Raised e)
                            | Inr s \<Rightarrow>
                                (if f_isnan ops s then (db1, Raised IntegrityError)
                                 else
                                   (db1\<lparr>budgets := budgets db1 @
                                          [\<lparr>b_id = next_id (map b_id (budgets db1)),
                                            b_user_id = u_id new_user,
                                            month_start_date = cycle_start,
                                            salary_credited = s\<rparr>]\<rparr>,
                                    Redirect ''index'' [])))))))
      else (db, Render ''register.html''))"

definition set_budget ::
  "'f float_ops \<Rightarrow> date \<Rightarrow> 'f database \<Rightarrow> nat option \<Rightarrow> http_method \<Rightarrow> error + 'f
     \<Rightarrow> 'f database \<times> 'f response" where
  "set_budget ops clock db session method salary =
     (case current_user db session of
        None \<Rightarrow> (db, Redirect ''login'' [])
      | Some cu \<Rightarrow>
          (case get_current_cycle_start clock (salary_credit_day cu) None of
             Inl e \<Rightarrow> (db, Raised e)
           | Inr cycle_start \<Rightarrow>
               (if method = POST then
                  (case salary of
                     Inl e \<Rightarrow> (db, Raised e)
                   | Inr s \<Rightarrow>
                       (if f_isnan ops s then (db, Raised IntegrityError)
                        else
                          (db\<lparr>budgets := budgets db @
                                 [\<lparr>b_id = next_id (map b_id (budgets db)),
                                   b_user_id = u_id cu,
                                   month_start_date = cycle_start,
                                   salary_credited = s\<rparr>]\<rparr>,
                           Redirect ''index'' [])))
                else (db, Render ''set_budget.html''))))"

text \<open>
  \<^verbatim>\<open>add_transaction\<close>: \<^verbatim>\<open>request.form.get("description")\<close> is \<open>None\<close> when the form has no
  such field.
\<close>

definition add_transaction ::
  "'f float_ops \<Rightarrow> date \<Rightarrow> time_of_day \<Rightarrow> 'f database \<Rightarrow> nat option \<Rightarrow> error + 'f
     \<Rightarrow> string option \<Rightarrow> 'f database \<times> 'f response" where
  "add_transaction ops clock clock_time db session amount_field descr =
     (case current_user db session of
        None \<Rightarrow> (db, Redirect ''login'' [])
      | Some cu \<Rightarrow>
          (case amount_field of
             Inl e \<Rightarrow> (db, Raised e)
           | Inr a \<Rightarrow>
               (case descr of
                  None \<Rightarrow> (db, Raised IntegrityError)
                | Some desc \<Rightarrow>
                    (if f_isnan ops a then (db, Raised IntegrityError)
                     else
                       (db\<lparr>transactions := transactions db @
                              [\<lparr>t_id = next_id (map t_id (transactions db)),
                                t_user_id = u_id cu, t_date = clock, t_time = clock_time,
                                amount = a, description = desc\<rparr>]\<rparr>,
                        Redirect ''index'' [])))))"

text \<open>
  \<^verbatim>\<open>update_profile\<close>: the field is \<open>None\<close> when it is absent or empty
  (\<^verbatim>\<open>if billing_cycle:\<close>), otherwise the result of \<^verbatim>\<open>int(billing_cycle)\<close>.
\<close>

definition update_profile ::
  "'f database \<Rightarrow> nat option \<Rightarrow> (error + int) option \<Rightarrow> 'f database \<times> 'f response" where
  "update_profile db session billing_cycle =
     (case current_user db session of
        None \<Rightarrow> (db, Redirect ''login'' [])
      | Some cu \<Rightarrow>
          (case billing_cycle of
             None \<Rightarrow> (db, Redirect ''index'' [])
           | Some (Inl e) \<Rightarrow> (db, Raised e)
           | Some (Inr bc) \<Rightarrow>
               (if \<not> sqlite_integer bc then (db, Raised OverflowError)
                else
                  (db\<lparr>users := map (\<lambda>u. if u_id u = u_id cu
                                         then u\<lparr>salary_credit_day := bc\<rparr> else u) (users db)\<rparr>,
                   Redirect ''index'' [ProfileUpdated]))))"

text \<open>
  The states the application can reach from the empty database through its four writing
  routes, at any clock and with any input.
\<close>

inductive reachable :: "'f float_ops \<Rightarrow> 'f database \<Rightarrow> bool" for ops :: "'f float_ops" where
  reach_empty: "reachable ops empty_db"
| reach_register:
    "reachable ops db \<Longrightarrow> valid_date clock \<Longrightarrow>
       reachable ops (fst (register ops clock db method uname pw_hash salary billing_cycle))"
| reach_set_budget:
    "reachable ops db \<Longrightarrow> valid_date clock \<Longrightarrow>
       reachable ops (fst (set_budget ops clock db session method salary))"
| reach_add_transaction:
    "reachable ops db \<Longrightarrow> valid_date clock \<Longrightarrow>
       reachable ops (fst (add_transaction ops clock clock_time db session amount_field descr))"
| reach_update_profile:
    "reachable ops db \<Longrightarrow> reachable ops (fst (update_profile db session billing_cycle))"

text \<open>At most one allocation per (user, cycle start); every allocation has its user.\<close>

definition unique_allocations :: "'f database \<Rightarrow> bool" where
  "unique_allocations db =
     distinct (map (\<lambda>b. (b_user_id b, month_start_date b)) (budgets db))"

definition budgets_owned :: "'f database \<Rightarrow> bool" where
  "budgets_owned db = (\<forall>b \<in> set (budgets db). b_user_id b \<in> set (map u_id (users db)))"

section \<open>Example data\<close>

text \<open>
  The examples take the rationals for the floats, with exact addition and subtraction and
  no NaN. Every amount in them is a multiple of one half of small size, which binary64
  represents exactly and adds and subtracts without rounding.
\<close>

definition demo_ops :: "rat float_ops" where
  "demo_ops = \<lparr>f_sum = (\<lambda>xs. foldl (+) 0 xs), f_sub = (\<lambda>a b. a - b), f_isnan = (\<lambda>a. False)\<rparr>"

text \<open>
  A small database used to evaluate the routes: one user with anchor day 8, her allocation
  for the cycle starting 2024-03-08, three of her transactions (the last one dated on the
  next cycle start) and one of another user; the same database with her allocation for
  the cycle starting 2024-04-08 as well; and the database left by a registration followed
  by a second budget submission within the same cycle.
\<close>

definition demo_clock :: date where
  "demo_clock = \<lparr>year = 2024, month = 3, day = 10\<rparr>"

definition demo_user :: user where
  "demo_user = \<lparr>u_id = 1, username = ''asha'', password_hash = ''pbkdf2'',
                 salary_credit_day = 8\<rparr>"

definition demo_budget :: "rat monthly_budget" where
  "demo_budget = \<lparr>b_id = 1, b_user_id = 1,
                   month_start_date = \<lparr>year = 2024, month = 3, day = 8\<rparr>,
                   salary_credited = 1000\<rparr>"

definition demo_budget_april :: "rat monthly_budget" where
  "demo_budget_april = \<lparr>b_id = 2, b_user_id = 1,
                         month_start_date = \<lparr>year = 2024, month = 4, day = 8\<rparr>,
                         salary_credited = 1000\<rparr>"

definition demo_tx :: "nat \<Rightarrow> nat \<Rightarrow> date \<Rightarrow> rat \<Rightarrow> rat transaction" where
  "demo_tx i uid dt a =
     \<lparr>t_id = i, t_user_id = uid, t_date = dt, t_time = (9, 30, 0, 0), amount = a,
      description = ''groceries''\<rparr>"

definition demo_db :: "rat database" where
  "demo_db =
     \<lparr>users = [demo_user], budgets = [demo_budget],
      transactions =
        [demo_tx 1 1 \<lparr>year = 2024, month = 3, day = 8\<rparr> 100.5,
         demo_tx 2 1 \<lparr>year = 2024, month = 3, day = 9\<rparr> 40,
         demo_tx 3 1 \<lparr>year = 2024, month = 4, day = 8\<rparr> 7,
         demo_tx 4 2 \<lparr>year = 2024, month = 3, day = 9\<rparr> 5]\<rparr>"

definition demo_db_april :: "rat database" where
  "demo_db_april = demo_db\<lparr>budgets := [demo_budget, demo_budget_april]\<rparr>"

definition demo_statement :: "rat statement" where
  "demo_statement =
     \<lparr>st_operator = ''asha'', st_cycle_start = \<lparr>year = 2024, month = 3, day = 8\<rparr>,
      st_allocation = 1000, st_total_spent = 140.5, st_remaining_balance = 859.5,
      st_rows = [(\<lparr>year = 2024, month = 3, day = 8\<rparr>, (9, 30, 0, 0), ''groceries'', 100.5),
                 (\<lparr>year = 2024, month = 3, day = 9\<rparr>, (9, 30, 0, 0), ''groceries'', 40)]\<rparr>"

definition demo_statement_april :: "rat statement" where
  "demo_statement_april =
     \<lparr>st_operator = ''asha'', st_cycle_start = \<lparr>year = 2024, month = 4, day = 8\<rparr>,
      st_allocation = 1000, st_total_spent = 7, st_remaining_balance = 993,
      st_rows = [(\<lparr>year = 2024, month = 4, day = 8\<rparr>, (9, 30, 0, 0), ''groceries'', 7)]\<rparr>"

definition demo_home :: "rat home_view" where
  "demo_home =
     \<lparr>hv_budget = demo_budget,
      hv_transactions =
        [demo_tx 3 1 \<lparr>year = 2024, month = 4, day = 8\<rparr> 7,
         demo_tx 2 1 \<lparr>year = 2024, month = 3, day = 9\<rparr> 40,
         demo_tx 1 1 \<lparr>year = 2024, month = 3, day = 8\<rparr> 100.5],
      hv_total_spent = 147.5, hv_remaining_balance = 852.5,
      hv_cycle_start = \<lparr>year = 2024, month = 3, day = 8\<rparr>\<rparr>"

definition demo_registered :: "rat database" where
  "demo_registered =
     fst (register demo_ops \<lparr>year = 2024, month = 3, day = 10\<rparr> empty_db POST ''asha''
            ''pbkdf2'' (Inr 1000) (Inr 8))"

definition demo_budget_twice :: "rat database" where
  "demo_budget_twice =
     fst (set_budget demo_ops \<lparr>year = 2024, month = 3, day = 11\<rparr> demo_registered (Some 1)
            POST (Inr 500))"

text \<open>
  A user who changes her anchor day: she registers with anchor 8 on 2024-03-10, records a
  transaction on 2024-03-15, changes the anchor to 15, and sets the next budget on
  2024-04-16.
\<close>

definition demo_anchor_changed :: "rat database" where
  "demo_anchor_changed =
     fst (set_budget demo_ops \<lparr>year = 2024, month = 4, day = 16\<rparr>
       (fst (update_profile
          (fst (add_transaction demo_ops \<lparr>year = 2024, month = 3, day = 15\<rparr> (9, 30, 0, 0)
                  demo_registered (Some 1) (Inr 40) (Some ''groceries'')))
          (Some 1) (Some (Inr 15))))
       (Some 1) POST (Inr 1000))"

section \<open>Properties of the cycle resolver\<close>

lemma days_in_month_bounds: "1 \<le> m \<Longrightarrow> m \<le> 12 \<Longrightarrow> 28 \<le> days_in_month y m \<and> days_in_month y m \<le> 31"
  by (simp add: days_in_month_def mdays_def)

lemma days_in_month_12 [simp]: "days_in_month y 12 = 31"
  by (simp add: days_in_month_def mdays_def)

lemma days_in_month_1 [simp]: "days_in_month y 1 = 31"
  by (simp add: days_in_month_def mdays_def)

lemma resolve_unfold:
  assumes "valid_date today"
  shows "get_current_cycle_start clock d (Some today) =
     (if min d (days_in_month (year today) (month today)) \<le> day today
      then date_new (year today) (month today) (min d (days_in_month (year today) (month today)))
      else if 1 < month today
        then date_new (year today) (month today - 1) (min d (days_in_month (year today) (month today - 1)))
      else if 1 < year today then date_new (year today - 1) 12 (min d 31)
      else Inl OverflowError)"
  using assms days_in_month_bounds[of "month today" "year today"]
  by (simp add: get_current_cycle_start_def get_actual_day_def monthrange_def valid_date_def
      date_new_def c_int_def date_pred_def Let_def)

lemma date_new_clamped:
  assumes "1 \<le> y" "y \<le> 9999" "1 \<le> m" "m \<le> 12" "1 \<le> d"
  shows "date_new y m (min d (days_in_month y m)) =
           Inr \<lparr>year = y, month = m, day = min d (days_in_month y m)\<rparr>"
  using assms days_in_month_bounds[of m y] by (auto simp add: date_new_def c_int_def min_def)

lemma resolve_spec:
  assumes "valid_date today" "1 \<le> d"
  shows "get_current_cycle_start clock d (Some today) =
     (if year today = 1 \<and> month today = 1 \<and> day today < min d 31 then Inl OverflowError
      else Inr (spec_cycle_start d today))"
proof -
  have v: "1 \<le> year today" "year today \<le> 9999" "1 \<le> month today" "month today \<le> 12"
      "1 \<le> day today" "day today \<le> days_in_month (year today) (month today)"
    using assms(1) by (simp_all add: valid_date_def)
  show ?thesis
  proof (cases "min d (days_in_month (year today) (month today)) \<le> day today")
    case True
    then show ?thesis
      using v assms(2) date_new_clamped[of "year today" "month today" d]
      by (auto simp add: resolve_unfold[OF assms(1)] spec_cycle_start_def)
  next
    case False
    note F = this
    show ?thesis
    proof (cases "1 < month today")
      case True
      then show ?thesis
        using F v assms(2) date_new_clamped[of "year today" "month today - 1" d]
        by (simp add: resolve_unfold[OF assms(1)] spec_cycle_start_def)
    next
      case False
      then have m1: "month today = 1" using v by simp
      show ?thesis
      proof (cases "1 < year today")
        case True
        then show ?thesis
          using F v m1 assms(2) date_new_clamped[of "year today - 1" 12 d]
          by (simp add: resolve_unfold[OF assms(1)] spec_cycle_start_def)
      next
        case False
        then have "year today = 1" using v by simp
        then show ?thesis
          using F v m1 assms(2)
          by (auto simp add: resolve_unfold[OF assms(1)] spec_cycle_start_def)
      qed
    qed
  qed
qed

lemma spec_cycle_start_valid:
  assumes "valid_date today" "1 \<le> d" "\<not> (year today = 1 \<and> month today = 1 \<and> day today < min d 31)"
  shows "valid_date (spec_cycle_start d today)"
  using assms days_in_month_bounds[of "month today" "year today"]
    days_in_month_bounds[of "month today - 1" "year today"]
  by (auto simp add: spec_cycle_start_def valid_date_def)

lemma spec_cycle_start_day:
  "day (spec_cycle_start d today) =
     min d (days_in_month (year (spec_cycle_start d today)) (month (spec_cycle_start d today)))"
  by (simp add: spec_cycle_start_def)

lemma spec_cycle_start_le:
  assumes "valid_date today"
  shows "date_le (spec_cycle_start d today) today"
  using assms
  by (auto simp add: spec_cycle_start_def date_le_def date_key_def valid_date_def)

lemma resolve_fixpoint:
  assumes "valid_date r" "day r = min d (days_in_month (year r) (month r))"
  shows "get_current_cycle_start clock d (Some r) = Inr r"
  using assms days_in_month_bounds[of "month r" "year r"]
  by (auto simp add: resolve_unfold date_new_def c_int_def valid_date_def min_def)

lemma resolve_nonpositive:
  assumes "valid_date today" "d \<le> 0"
  shows "get_current_cycle_start clock d (Some today) =
           Inl (if d < - 2147483648 then OverflowError else ValueError)"
  using assms days_in_month_bounds[of "month today" "year today"]
  by (simp add: resolve_unfold date_new_def c_int_def valid_date_def)

lemmas date_eval = valid_date_def days_in_month_def mdays_def isleap_def date_new_def c_int_def
  date_le_def date_lt_def date_key_def spec_cycle_start_def

text \<open>
  Claim C1. For every anchor day \<open>d\<close> in 1..31 and every reference date, the date that
  \<^const>\<open>get_current_cycle_start\<close> returns is a calendar date whose day of month is
  \<open>min d\<close> (days in the returned date's month); an anchor of 31 clamps to 28, 29 and 30 in
  the shorter months, and anchor 31 at 2024-02-15 resolves to 2024-01-31. The only
  reference dates for which no date is returned are those of January of year 1 that lie
  before the anchor, where the resolver raises \<^verbatim>\<open>OverflowError\<close>.
\<close>

theorem cycle_start_day_is_clamped_anchor:
  "(valid_date today \<and> 1 \<le> d \<and> d \<le> 31 \<longrightarrow>
      (case get_current_cycle_start clock d (Some today) of
         Inr r \<Rightarrow> valid_date r \<and> day r = min d (days_in_month (year r) (month r))
       | Inl e \<Rightarrow> e = OverflowError \<and> year today = 1 \<and> month today = 1 \<and> day today < d))
   \<and> get_current_cycle_start clock 31 (Some \<lparr>year = 2024, month = 2, day = 15\<rparr>)
       = Inr \<lparr>year = 2024, month = 1, day = 31\<rparr>
   \<and> get_current_cycle_start clock 31 (Some \<lparr>year = 2023, month = 2, day = 28\<rparr>)
       = Inr \<lparr>year = 2023, month = 2, day = 28\<rparr>
   \<and> get_current_cycle_start clock 31 (Some \<lparr>year = 2024, month = 3, day = 15\<rparr>)
       = Inr \<lparr>year = 2024, month = 2, day = 29\<rparr>
   \<and> get_current_cycle_start clock 31 (Some \<lparr>year = 2024, month = 5, day = 15\<rparr>)
       = Inr \<lparr>year = 2024, month = 4, day = 30\<rparr>"
proof (intro conjI impI)
  assume a: "valid_date today \<and> 1 \<le> d \<and> d \<le> 31"
  then have v: "valid_date today" and d: "1 \<le> d" "d \<le> 31" by simp_all
  show "case get_current_cycle_start clock d (Some today) of
         Inr r \<Rightarrow> valid_date r \<and> day r = min d (days_in_month (year r) (month r))
       | Inl e \<Rightarrow> e = OverflowError \<and> year today = 1 \<and> month today = 1 \<and> day today < d"
  proof (cases "year today = 1 \<and> month today = 1 \<and> day today < min d 31")
    case True
    then show ?thesis using d by (auto simp add: resolve_spec[OF v d(1)])
  next
    case False
    then show ?thesis
      using spec_cycle_start_valid[OF v d(1) False] spec_cycle_start_day[of d today]
      by (simp add: resolve_spec[OF v d(1)])
  qed
qed (simp_all add: resolve_unfold date_eval)

theorem cycle_start_day_is_clamped_anchor_witness:
  "valid_date \<lparr>year = 2024, month = 2, day = 15\<rparr> \<and> (1::int) \<le> 31 \<and> (31::int) \<le> 31 \<and>
   (case get_current_cycle_start \<lparr>year = 2024, month = 3, day = 5\<rparr> 31
           (Some \<lparr>year = 2024, month = 2, day = 15\<rparr>) of
      Inr r \<Rightarrow> valid_date r \<and> day r = min 31 (days_in_month (year r) (month r))
    | Inl e \<Rightarrow> False)"
  using cycle_start_day_is_clamped_anchor
    [of "\<lparr>year = 2024, month = 2, day = 15\<rparr>" 31 "\<lparr>year = 2024, month = 3, day = 5\<rparr>"]
  by (simp add: date_eval split: sum.splits)

text \<open>
  Claim C2, as stated, promises a roll back to December of the previous year for every
  January reference date before the anchor. At 0001-01-05 with anchor 8 there is no
  previous year: \<^verbatim>\<open>date(1, 1, 1) - timedelta(days=1)\<close> raises \<^verbatim>\<open>OverflowError\<close>.
\<close>

theorem rollback_before_first_year_counterexample:
  "valid_date \<lparr>year = 1, month = 1, day = 5\<rparr> \<and>
   day \<lparr>year = 1, month = 1, day = 5\<rparr> < min 8 (days_in_month 1 1) \<and>
   get_current_cycle_start \<lparr>year = 2024, month = 3, day = 5\<rparr> 8
      (Some \<lparr>year = 1, month = 1, day = 5\<rparr>) = Inl OverflowError \<and>
   get_current_cycle_start \<lparr>year = 2024, month = 3, day = 5\<rparr> 8
      (Some \<lparr>year = 1, month = 1, day = 5\<rparr>)
     \<noteq> Inr (spec_cycle_start 8 \<lparr>year = 1, month = 1, day = 5\<rparr>)"
  by (simp add: resolve_unfold date_eval)

text \<open>
  Claim C2, amended. For every anchor day \<open>d\<close> in 1..31 and every reference date other than
  a date of January of year 1 before the anchor, the resolver returns today's month with
  the clamped day when today has reached it, and otherwise the previous calendar month
  with that month's own clamped day, December of the previous year when today is in
  January. Anchor 8 resolves 2024-03-05 to 2024-02-08, 2024-03-08 to itself and
  2024-01-05 to 2023-12-08.
\<close>

theorem cycle_start_follows_spec:
  "(valid_date today \<and> 1 \<le> d \<and> d \<le> 31 \<and>
      \<not> (year today = 1 \<and> month today = 1 \<and> day today < d) \<longrightarrow>
      get_current_cycle_start clock d (Some today) = Inr (spec_cycle_start d today))
   \<and> get_current_cycle_start clock 8 (Some \<lparr>year = 2024, month = 3, day = 5\<rparr>)
       = Inr \<lparr>year = 2024, month = 2, day = 8\<rparr>
   \<and> get_current_cycle_start clock 8 (Some \<lparr>year = 2024, month = 3, day = 8\<rparr>)
       = Inr \<lparr>year = 2024, month = 3, day = 8\<rparr>
   \<and> get_current_cycle_start clock 8 (Some \<lparr>year = 2024, month = 1, day = 5\<rparr>)
       = Inr \<lparr>year = 2023, month = 12, day = 8\<rparr>"
proof (intro conjI impI)
  assume a: "valid_date today \<and> 1 \<le> d \<and> d \<le> 31 \<and>
      \<not> (year today = 1 \<and> month today = 1 \<and> day today < d)"
  then show "get_current_cycle_start clock d (Some today) = Inr (spec_cycle_start d today)"
    by (simp add: resolve_spec)
qed (simp_all add: resolve_unfold date_eval)

theorem cycle_start_follows_spec_witness:
  "valid_date \<lparr>year = 2024, month = 1, day = 5\<rparr> \<and> (1::int) \<le> 8 \<and> (8::int) \<le> 31 \<and>
   \<not> (year \<lparr>year = 2024, month = 1, day = 5\<rparr> = 1 \<and> month \<lparr>year = 2024, month = 1, day = 5\<rparr> = 1
       \<and> day \<lparr>year = 2024, month = 1, day = 5\<rparr> < 8) \<and>
   get_current_cycle_start \<lparr>year = 2024, month = 3, day = 5\<rparr> 8
      (Some \<lparr>year = 2024, month = 1, day = 5\<rparr>)
     = Inr (spec_cycle_start 8 \<lparr>year = 2024, month = 1, day = 5\<rparr>) \<and>
   spec_cycle_start 8 \<lparr>year = 2024, month = 1, day = 5\<rparr> = \<lparr>year = 2023, month = 12, day = 8\<rparr>"
  using cycle_start_follows_spec
    [of "\<lparr>year = 2024, month = 1, day = 5\<rparr>" 8 "\<lparr>year = 2024, month = 3, day = 5\<rparr>"]
  by (simp add: date_eval)

text \<open>
  Claim C8. The resolver is idempotent: for every anchor day \<open>d\<close> in 1..31 and every
  reference date, resolving the resolver's own result gives that result again (and where
  the first call raises, so does the composition).
\<close>

theorem cycle_start_idempotent:
  assumes "valid_date today" "1 \<le> d" "d \<le> 31"
  shows "(case get_current_cycle_start clock d (Some today) of
            Inl e \<Rightarrow> Inl e
          | Inr r \<Rightarrow> get_current_cycle_start clock' d (Some r))
         = get_current_cycle_start clock d (Some today)"
proof (cases "year today = 1 \<and> month today = 1 \<and> day today < min d 31")
  case True
  then show ?thesis by (simp add: resolve_spec[OF assms(1,2)])
next
  case False
  have "get_current_cycle_start clock' d (Some (spec_cycle_start d today))
          = Inr (spec_cycle_start d today)"
    using spec_cycle_start_valid[OF assms(1,2) False] spec_cycle_start_day[of d today]
    by (rule resolve_fixpoint)
  then show ?thesis using False by (simp add: resolve_spec[OF assms(1,2)])
qed

theorem cycle_start_idempotent_witness:
  "valid_date \<lparr>year = 2024, month = 3, day = 5\<rparr> \<and> (1::int) \<le> 8 \<and> (8::int) \<le> 31 \<and>
   get_current_cycle_start \<lparr>year = 2024, month = 6, day = 1\<rparr> 8
      (Some \<lparr>year = 2024, month = 3, day = 5\<rparr>) = Inr \<lparr>year = 2024, month = 2, day = 8\<rparr> \<and>
   get_current_cycle_start \<lparr>year = 2024, month = 7, day = 1\<rparr> 8
      (Some \<lparr>year = 2024, month = 2, day = 8\<rparr>) = Inr \<lparr>year = 2024, month = 2, day = 8\<rparr>"
proof -
  have v: "valid_date \<lparr>year = 2024, month = 3, day = 5\<rparr>" by (simp add: date_eval)
  have r: "get_current_cycle_start \<lparr>year = 2024, month = 6, day = 1\<rparr> 8
      (Some \<lparr>year = 2024, month = 3, day = 5\<rparr>) = Inr \<lparr>year = 2024, month = 2, day = 8\<rparr>"
    by (simp add: resolve_unfold[OF v] date_eval)
  show ?thesis
    using cycle_start_idempotent[OF v, where d = 8
        and clock = "\<lparr>year = 2024, month = 6, day = 1\<rparr>"
        and clock' = "\<lparr>year = 2024, month = 7, day = 1\<rparr>"] v r
    by simp
qed

text \<open>
  Claim C10, as stated, says the resolver never raises for an anchor \<open>d \<ge> 1\<close> and a valid
  reference date. At 0001-01-10 with anchor 15 it raises \<^verbatim>\<open>OverflowError\<close>.
\<close>

theorem first_january_overflow_counterexample:
  "(1::int) \<le> 15 \<and> valid_date \<lparr>year = 1, month = 1, day = 10\<rparr> \<and>
   get_current_cycle_start \<lparr>year = 2024, month = 3, day = 5\<rparr> 15
      (Some \<lparr>year = 1, month = 1, day = 10\<rparr>) = Inl OverflowError"
  by (simp add: resolve_unfold date_eval)

text \<open>
  Claim C10, amended. For every anchor \<open>d \<ge> 1\<close> and every valid reference date that is not
  a date of January of year 1 before the clamped anchor, the resolver returns a valid
  calendar date that is not later than the reference date; at those excluded dates it
  raises \<^verbatim>\<open>OverflowError\<close>; and for \<open>d \<le> 0\<close> the date construction fails with an error
  (\<^verbatim>\<open>ValueError\<close>, or \<^verbatim>\<open>OverflowError\<close> when \<open>d\<close> does not fit a C \<^verbatim>\<open>int\<close>).
\<close>

theorem cycle_start_returns_valid_earlier_date:
  "(1 \<le> d \<and> valid_date today \<and>
      \<not> (year today = 1 \<and> month today = 1 \<and> day today < min d 31) \<longrightarrow>
      (\<exists>r. get_current_cycle_start clock d (Some today) = Inr r \<and> valid_date r \<and>
           date_le r today))
   \<and> (1 \<le> d \<and> valid_date today \<and> year today = 1 \<and> month today = 1 \<and> day today < min d 31
        \<longrightarrow> get_current_cycle_start clock d (Some today) = Inl OverflowError)
   \<and> (d \<le> 0 \<and> valid_date today \<longrightarrow>
        (\<exists>e. get_current_cycle_start clock d (Some today) = Inl e) \<and>
        get_current_cycle_start clock d (Some today) =
          Inl (if d < - 2147483648 then OverflowError else ValueError))"
proof (intro conjI impI)
  assume a: "1 \<le> d \<and> valid_date today \<and>
      \<not> (year today = 1 \<and> month today = 1 \<and> day today < min d 31)"
  then have "get_current_cycle_start clock d (Some today) = Inr (spec_cycle_start d today)"
    by (simp add: resolve_spec)
  moreover have "valid_date (spec_cycle_start d today)"
    using a by (simp add: spec_cycle_start_valid)
  moreover have "date_le (spec_cycle_start d today) today"
    using a by (simp add: spec_cycle_start_le)
  ultimately show "\<exists>r. get_current_cycle_start clock d (Some today) = Inr r \<and> valid_date r \<and>
           date_le r today" by blast
next
  assume "1 \<le> d \<and> valid_date today \<and> year today = 1 \<and> month today = 1 \<and> day today < min d 31"
  then show "get_current_cycle_start clock d (Some today) = Inl OverflowError"
    by (simp add: resolve_spec)
next
  assume a: "d \<le> 0 \<and> valid_date today"
  then show "get_current_cycle_start clock d (Some today) =
          Inl (if d < - 2147483648 then OverflowError else ValueError)"
    using resolve_nonpositive[of today d clock] by simp
  then show "\<exists>e. get_current_cycle_start clock d (Some today) = Inl e" by blast
qed

theorem cycle_start_returns_valid_earlier_date_witness:
  "(1::int) \<le> 8 \<and> valid_date \<lparr>year = 2024, month = 3, day = 5\<rparr> \<and>
   (\<exists>r. get_current_cycle_start \<lparr>year = 2024, month = 6, day = 1\<rparr> 8
           (Some \<lparr>year = 2024, month = 3, day = 5\<rparr>) = Inr r \<and> valid_date r \<and>
        date_le r \<lparr>year = 2024, month = 3, day = 5\<rparr>) \<and>
   (1::int) \<le> 8 \<and> valid_date \<lparr>year = 1, month = 1, day = 7\<rparr> \<and>
   get_current_cycle_start \<lparr>year = 2024, month = 6, day = 1\<rparr> 8
      (Some \<lparr>year = 1, month = 1, day = 7\<rparr>) = Inl OverflowError \<and>
   (0::int) \<le> 0 \<and>
   get_current_cycle_start \<lparr>year = 2024, month = 6, day = 1\<rparr> 0
      (Some \<lparr>year = 2024, month = 3, day = 5\<rparr>) = Inl ValueError \<and>
   (- 99999999999::int) \<le> 0 \<and>
   get_current_cycle_start \<lparr>year = 2024, month = 6, day = 1\<rparr> (- 99999999999)
      (Some \<lparr>year = 2024, month = 3, day = 5\<rparr>) = Inl OverflowError"
proof -
  have v1: "valid_date \<lparr>year = 2024, month = 3, day = 5\<rparr>"
    and v2: "valid_date \<lparr>year = 1, month = 1, day = 7\<rparr>" by (simp_all add: date_eval)
  show ?thesis
    using cycle_start_returns_valid_earlier_date
        [of 8 "\<lparr>year = 2024, month = 3, day = 5\<rparr>" "\<lparr>year = 2024, month = 6, day = 1\<rparr>"]
      cycle_start_returns_valid_earlier_date
        [of 8 "\<lparr>year = 1, month = 1, day = 7\<rparr>" "\<lparr>year = 2024, month = 6, day = 1\<rparr>"]
      cycle_start_returns_valid_earlier_date
        [of 0 "\<lparr>year = 2024, month = 3, day = 5\<rparr>" "\<lparr>year = 2024, month = 6, day = 1\<rparr>"]
      cycle_start_returns_valid_earlier_date
        [of "- 99999999999" "\<lparr>year = 2024, month = 3, day = 5\<rparr>"
          "\<lparr>year = 2024, month = 6, day = 1\<rparr>"]
      v1 v2
    by simp
qed

section \<open>Day steps and ordinals\<close>

text \<open>
  The library computes \<^verbatim>\<open>date + timedelta\<close> on ordinals. Stepping one day at a time
  agrees with it: a step forward leads to a valid date whose \<^const>\<open>toordinal\<close> is one
  more, a step back to one whose ordinal is one less, and \<open>n\<close> steps add \<open>n\<close>.
\<close>

lemma div_step:
  assumes "0 < (k::int)"
  shows "y div k = (y - 1) div k + (if y mod k = 0 then 1 else 0)"
proof (cases "y mod k = 0")
  case True
  then have "y = k * (y div k)" by auto
  then have "y - 1 = k * (y div k - 1) + (k - 1)"
    by (simp add: algebra_simps)
  then have "(y - 1) div k = y div k - 1"
    using assms by (intro int_div_pos_eq[where r = "k - 1"]) simp_all
  then show ?thesis using True by simp
next
  case False
  have "0 \<le> y mod k" using assms by simp
  moreover have "y mod k < k" using assms by simp
  ultimately have r: "0 \<le> y mod k - 1" "y mod k - 1 < k" using False by linarith+
  have "y - 1 = k * (y div k) + (y mod k - 1)" by simp
  then have "(y - 1) div k = y div k"
    using r by (rule int_div_pos_eq)
  then show ?thesis using False by simp
qed

lemma leap_count:
  fixes p4 p100 p400 :: bool
  assumes "p400 \<Longrightarrow> p100" "p100 \<Longrightarrow> p4"
  shows "365 + (if p4 then 1 else 0) - (if p100 then 1 else 0) + (if p400 then 1 else 0)
           = (if p4 \<and> (\<not> p100 \<or> p400) then 366 else (365::int))"
  using assms by (cases p4; cases p100; cases p400) simp_all

lemma mod_400_100: "(y::int) mod 400 = 0 \<Longrightarrow> y mod 100 = 0"
proof -
  assume "y mod 400 = 0"
  then have "400 dvd y" by (simp add: dvd_eq_mod_eq_0)
  moreover have "(100::int) dvd 400" by simp
  ultimately have "100 dvd y" using dvd_trans by blast
  then show ?thesis by (simp add: dvd_eq_mod_eq_0)
qed

lemma mod_100_4: "(y::int) mod 100 = 0 \<Longrightarrow> y mod 4 = 0"
proof -
  assume "y mod 100 = 0"
  then have "100 dvd y" by (simp add: dvd_eq_mod_eq_0)
  moreover have "(4::int) dvd 100" by simp
  ultimately have "4 dvd y" using dvd_trans by blast
  then show ?thesis by (simp add: dvd_eq_mod_eq_0)
qed

lemma days_before_year_parts:
  fixes y a b c :: int
  assumes "y div 4 = (y - 1) div 4 + a" "y div 100 = (y - 1) div 100 + b"
    "y div 400 = (y - 1) div 400 + c"
  shows "days_before_year (y + 1) = days_before_year y + (365 + a - b + c)"
  unfolding days_before_year_def using assms by (simp add: algebra_simps)

lemma days_before_year_step:
  "days_before_year (y + 1) = days_before_year y + (if isleap y then 366 else 365)"
proof -
  have "365 + (if y mod 4 = 0 then 1 else 0) - (if y mod 100 = 0 then 1 else 0)
           + (if y mod 400 = 0 then 1 else 0) = (if isleap y then 366 else (365::int))"
    unfolding isleap_def
    by (rule leap_count[of "y mod 400 = 0" "y mod 100 = 0" "y mod 4 = 0"])
       (rule mod_400_100, assumption, rule mod_100_4, assumption)
  then show ?thesis
    using days_before_year_parts[OF div_step[of 4 y] div_step[of 100 y] div_step[of 400 y]]
    by simp
qed

lemma days_before_month_step:
  "1 \<le> m \<Longrightarrow> days_before_month y (m + 1) = days_before_month y m + days_in_month y m"
  by (simp add: days_before_month_def upto_rec2)

lemma days_before_month_first: "days_before_month y 1 = 0"
  by (simp add: days_before_month_def)

lemma days_before_month_december:
  "days_before_month y 12 = (if isleap y then 335 else 334)"
proof -
  have "[1..11::int] = [1,2,3,4,5,6,7,8,9,10,11]" by code_simp
  then show ?thesis
    by (simp add: days_before_month_def days_in_month_def mdays_def)
qed


lemma toordinal_first: "toordinal \<lparr>year = 1, month = 1, day = 1\<rparr> = 1"
  by (simp add: toordinal_def days_before_year_def days_before_month_first)

lemma date_succ_cases:
  assumes "valid_date dt" "date_succ dt = Inr dt'"
  shows "(day dt < days_in_month (year dt) (month dt) \<and> dt' = dt\<lparr>day := day dt + 1\<rparr>) \<or>
         (day dt = days_in_month (year dt) (month dt) \<and> month dt < 12 \<and>
            dt' = \<lparr>year = year dt, month = month dt + 1, day = 1\<rparr>) \<or>
         (day dt = days_in_month (year dt) (month dt) \<and> month dt = 12 \<and> year dt < 9999 \<and>
            dt' = \<lparr>year = year dt + 1, month = 1, day = 1\<rparr>)"
proof (cases "day dt < days_in_month (year dt) (month dt)")
  case True
  then show ?thesis using assms(2) by (simp add: date_succ_def)
next
  case False
  then have e: "day dt = days_in_month (year dt) (month dt)"
    using assms(1) by (simp add: valid_date_def)
  show ?thesis
  proof (cases "month dt < 12")
    case True
    then show ?thesis using assms(2) False e by (simp add: date_succ_def)
  next
    case False
    then have "month dt = 12" using assms(1) by (simp add: valid_date_def)
    then show ?thesis
      using assms(2) e \<open>\<not> day dt < days_in_month (year dt) (month dt)\<close>
      by (simp add: date_succ_def split: if_splits)
  qed
qed

lemma date_succ_toordinal:
  assumes "valid_date dt" "date_succ dt = Inr dt'"
  shows "valid_date dt' \<and> toordinal dt' = toordinal dt + 1"
proof -
  have v: "1 \<le> year dt" "year dt \<le> 9999" "1 \<le> month dt" "month dt \<le> 12" "1 \<le> day dt"
    using assms(1) by (simp_all add: valid_date_def)
  consider (same) "day dt < days_in_month (year dt) (month dt)" "dt' = dt\<lparr>day := day dt + 1\<rparr>"
    | (month) "day dt = days_in_month (year dt) (month dt)" "month dt < 12"
        "dt' = \<lparr>year = year dt, month = month dt + 1, day = 1\<rparr>"
    | (year) "day dt = days_in_month (year dt) (month dt)" "month dt = 12" "year dt < 9999"
        "dt' = \<lparr>year = year dt + 1, month = 1, day = 1\<rparr>"
    using date_succ_cases[OF assms] by blast
  then show ?thesis
  proof cases
    case same
    then show ?thesis using v by (simp add: valid_date_def toordinal_def)
  next
    case month
    have "1 \<le> days_in_month (year dt) (month dt + 1)"
      using days_in_month_bounds[of "month dt + 1" "year dt"] v month(2) by simp
    moreover have "toordinal dt' = toordinal dt + 1"
      using v(3) by (simp add: month(1,3) toordinal_def days_before_month_step)
    ultimately show ?thesis using v month(2) by (simp add: month(3) valid_date_def)
  next
    case year
    have "toordinal dt = days_before_year (year dt) + (if isleap (year dt) then 366 else 365)"
      by (simp add: toordinal_def year(1,2) days_before_month_december)
    moreover have "toordinal dt' = days_before_year (year dt + 1) + 1"
      by (simp add: toordinal_def year(4) days_before_month_first)
    moreover have "valid_date dt'" using year(3) v(1) by (simp add: year(4) valid_date_def)
    ultimately show ?thesis by (simp add: days_before_year_step)
  qed
qed

lemma date_add_days_toordinal:
  assumes "valid_date dt" "date_add_days dt n = Inr dt'"
  shows "valid_date dt' \<and> toordinal dt' = toordinal dt + int n"
  using assms
proof (induction n arbitrary: dt)
  case 0
  then show ?case by simp
next
  case (Suc n)
  then obtain dt1 where s: "date_succ dt = Inr dt1" and r: "date_add_days dt1 n = Inr dt'"
    by (auto split: sum.splits)
  have "valid_date dt1 \<and> toordinal dt1 = toordinal dt + 1"
    using date_succ_toordinal[OF Suc.prems(1) s] .
  moreover from this have "valid_date dt' \<and> toordinal dt' = toordinal dt1 + int n"
    using Suc.IH[OF _ r] by simp
  ultimately show ?case by simp
qed


lemma date_pred_succ:
  assumes "valid_date dt" "date_pred dt = Inr dt'"
  shows "valid_date dt' \<and> date_succ dt' = Inr dt"
proof -
  have v: "1 \<le> year dt" "year dt \<le> 9999" "1 \<le> month dt" "month dt \<le> 12" "1 \<le> day dt"
    "day dt \<le> days_in_month (year dt) (month dt)"
    using assms(1) by (simp_all add: valid_date_def)
  show ?thesis
  proof (cases "1 < day dt")
    case True
    then have "dt' = dt\<lparr>day := day dt - 1\<rparr>" using assms(2) by (simp add: date_pred_def)
    then show ?thesis using True v by (simp add: valid_date_def date_succ_def)
  next
    case False
    then have d1: "day dt = 1" using v by simp
    show ?thesis
    proof (cases "1 < month dt")
      case True
      then have e: "dt' = \<lparr>year = year dt, month = month dt - 1,
                             day = days_in_month (year dt) (month dt - 1)\<rparr>"
        using assms(2) d1 by (simp add: date_pred_def)
      have "28 \<le> days_in_month (year dt) (month dt - 1)"
        using days_in_month_bounds[of "month dt - 1" "year dt"] True v by simp
      moreover have "dt = \<lparr>year = year dt, month = month dt, day = 1\<rparr>" using d1 by simp
      ultimately show ?thesis
        using True v by (simp add: e valid_date_def date_succ_def)
    next
      case False
      then have m1: "month dt = 1" using v by simp
      then have y: "1 < year dt" and e: "dt' = \<lparr>year = year dt - 1, month = 12, day = 31\<rparr>"
        using assms(2) d1 by (simp_all add: date_pred_def split: if_splits)
      have "dt = \<lparr>year = year dt, month = 1, day = 1\<rparr>" using d1 m1 by simp
      then show ?thesis
        using y v by (simp add: e valid_date_def date_succ_def)
    qed
  qed
qed

lemma date_pred_toordinal:
  assumes "valid_date dt" "date_pred dt = Inr dt'"
  shows "valid_date dt' \<and> toordinal dt' = toordinal dt - 1"
proof -
  have p: "valid_date dt'" "date_succ dt' = Inr dt"
    using date_pred_succ[OF assms] by simp_all
  from date_succ_toordinal[OF p] p(1) show ?thesis by simp
qed

section \<open>The next cycle start\<close>

lemma add_days_within:
  "day dt + int n \<le> days_in_month (year dt) (month dt) \<Longrightarrow>
     date_add_days dt n = Inr (dt\<lparr>day := day dt + int n\<rparr>)"
proof (induction n arbitrary: dt)
  case 0
  then show ?case by simp
next
  case (Suc n)
  then have "date_succ dt = Inr (dt\<lparr>day := day dt + 1\<rparr>)"
    by (simp add: date_succ_def)
  moreover have "date_add_days (dt\<lparr>day := day dt + 1\<rparr>) n
      = Inr (dt\<lparr>day := day dt + 1\<rparr>\<lparr>day := day (dt\<lparr>day := day dt + 1\<rparr>) + int n\<rparr>)"
    using Suc.prems by (intro Suc.IH) simp
  ultimately show ?case by (simp add: add.assoc)
qed

lemma add_days_append:
  "date_add_days dt (a + b) =
     (case date_add_days dt a of Inl e \<Rightarrow> Inl e | Inr dt' \<Rightarrow> date_add_days dt' b)"
  by (induction a arbitrary: dt) (auto split: sum.splits)

lemma add_days_cross:
  assumes "valid_date dt"
    and "n = nat (days_in_month (year dt) (month dt) - day dt) + Suc n'"
  shows "date_add_days dt n =
     (if year dt = 9999 \<and> month dt = 12 then Inl OverflowError
      else date_add_days
             \<lparr>year = fst (next_month (year dt, month dt)),
              month = snd (next_month (year dt, month dt)), day = 1\<rparr> n')"
proof -
  define k where "k = nat (days_in_month (year dt) (month dt) - day dt)"
  have v: "day dt \<le> days_in_month (year dt) (month dt)" "month dt \<le> 12" "year dt \<le> 9999"
    using assms(1) by (simp_all add: valid_date_def)
  have n: "n = k + Suc n'" using assms(2) by (simp add: k_def)
  have "date_add_days dt k = Inr (dt\<lparr>day := day dt + int k\<rparr>)"
    using v(1) by (intro add_days_within) (simp add: k_def)
  moreover have "day dt + int k = days_in_month (year dt) (month dt)"
    using v(1) by (simp add: k_def)
  ultimately have 1: "date_add_days dt k = Inr (dt\<lparr>day := days_in_month (year dt) (month dt)\<rparr>)"
    by simp
  show ?thesis
    unfolding n add_days_append 1 using v(2,3)
    by (auto simp add: date_succ_def next_month_def)
qed

lemma next_month_valid:
  assumes "1 \<le> m" "m \<le> 12"
  shows "1 \<le> snd (next_month (y, m))" "snd (next_month (y, m)) \<le> 12"
    "y \<le> fst (next_month (y, m))" "fst (next_month (y, m)) \<le> y + 1"
  using assms by (simp_all add: next_month_def)

text \<open>Where the reference date lands: 32 days after a valid date.\<close>

lemma add_32:
  assumes "valid_date s"
  shows "date_add_days s 32 =
     (let ym1 = next_month (year s, month s);
          ym2 = next_month ym1;
          r = day s + 32 - days_in_month (year s) (month s)
      in if year s = 9999 \<and> month s = 12 then Inl OverflowError
         else if r \<le> days_in_month (fst ym1) (snd ym1)
           then Inr \<lparr>year = fst ym1, month = snd ym1, day = r\<rparr>
         else if fst ym1 = 9999 \<and> snd ym1 = 12 then Inl OverflowError
         else Inr \<lparr>year = fst ym2, month = snd ym2,
                   day = r - days_in_month (fst ym1) (snd ym1)\<rparr>)"
proof -
  define ym1 where "ym1 = next_month (year s, month s)"
  define ym2 where "ym2 = next_month ym1"
  define dim where "dim = days_in_month (year s) (month s)"
  define dim1 where "dim1 = days_in_month (fst ym1) (snd ym1)"
  define r where "r = day s + 32 - dim"
  have v: "1 \<le> year s" "year s \<le> 9999" "1 \<le> month s" "month s \<le> 12" "1 \<le> day s"
    "day s \<le> dim"
    using assms by (simp_all add: valid_date_def dim_def)
  have dim: "28 \<le> dim" "dim \<le> 31"
    using days_in_month_bounds[of "month s" "year s"] v by (simp_all add: dim_def)
  have m1: "1 \<le> snd ym1" "snd ym1 \<le> 12"
    using next_month_valid[of "month s" "year s"] v by (simp_all add: ym1_def)
  have dim1: "28 \<le> dim1" "dim1 \<le> 31"
    using days_in_month_bounds[of "snd ym1" "fst ym1"] m1 by (simp_all add: dim1_def)
  have r: "2 \<le> r" "r \<le> 32" using v dim by (simp_all add: r_def)
  let ?first1 = "\<lparr>year = fst ym1, month = snd ym1, day = 1\<rparr>"
  have step1: "date_add_days s 32 =
      (if year s = 9999 \<and> month s = 12 then Inl OverflowError
       else date_add_days ?first1 (nat (r - 1)))"
  proof -
    have "(32::nat) = nat (days_in_month (year s) (month s) - day s) + Suc (nat (r - 1))"
      using v dim by (simp add: r_def dim_def)
    from add_days_cross[OF assms this] show ?thesis by (simp add: ym1_def)
  qed
  show ?thesis
  proof (cases "year s = 9999 \<and> month s = 12")
    case True
    then show ?thesis by (simp add: step1 Let_def)
  next
    case False
    note F = this
    have y1: "1 \<le> fst ym1" "fst ym1 \<le> 9999"
      using F v by (auto simp add: ym1_def next_month_def)
    have vf: "valid_date ?first1"
      using y1 m1 dim1 by (simp add: valid_date_def dim1_def)
    show ?thesis
    proof (cases "r \<le> dim1")
      case True
      have "date_add_days ?first1 (nat (r - 1)) = Inr (?first1\<lparr>day := day ?first1 + int (nat (r - 1))\<rparr>)"
        using True r by (intro add_days_within) (simp add: dim1_def)
      then have "date_add_days s 32 = Inr \<lparr>year = fst ym1, month = snd ym1, day = r\<rparr>"
        using F r by (simp add: step1)
      then show ?thesis
        using True F
        by (simp add: Let_def ym1_def[symmetric] dim1_def[symmetric] dim_def[symmetric]
            r_def[symmetric])
    next
      case False
      have "nat (r - 1) = nat (days_in_month (year ?first1) (month ?first1) - day ?first1)
              + Suc (nat (r - dim1 - 1))"
        using False r dim1 by (simp add: dim1_def)
      from add_days_cross[OF vf this]
      have A: "date_add_days ?first1 (nat (r - 1)) =
        (if fst ym1 = 9999 \<and> snd ym1 = 12 then Inl OverflowError
         else date_add_days \<lparr>year = fst ym2, month = snd ym2, day = 1\<rparr> (nat (r - dim1 - 1)))"
        by (simp add: ym2_def)
      have C: "date_add_days \<lparr>year = fst ym2, month = snd ym2, day = 1\<rparr> (nat (r - dim1 - 1))
          = Inr \<lparr>year = fst ym2, month = snd ym2, day = r - dim1\<rparr>"
      proof -
        have m2: "1 \<le> snd ym2" "snd ym2 \<le> 12"
          using next_month_valid[of "snd ym1" "fst ym1"] m1 by (simp_all add: ym2_def)
        have "28 \<le> days_in_month (fst ym2) (snd ym2)"
          using days_in_month_bounds[of "snd ym2" "fst ym2"] m2 by simp
        then have "day \<lparr>year = fst ym2, month = snd ym2, day = 1\<rparr> + int (nat (r - dim1 - 1))
            \<le> days_in_month (year \<lparr>year = fst ym2, month = snd ym2, day = 1\<rparr>)
                 (month \<lparr>year = fst ym2, month = snd ym2, day = 1\<rparr>)"
          using False r dim1 by simp
        from add_days_within[OF this] show ?thesis using False by simp
      qed
      have "date_add_days s 32 =
          (if fst ym1 = 9999 \<and> snd ym1 = 12 then Inl OverflowError
           else Inr \<lparr>year = fst ym2, month = snd ym2, day = r - dim1\<rparr>)"
        using F by (simp only: step1 A C if_False)
      then show ?thesis
        using False F
        by (simp add: Let_def ym1_def[symmetric] ym2_def[symmetric] dim1_def[symmetric]
            dim_def[symmetric] r_def[symmetric])
    qed
  qed
qed


lemma is_cycle_start_iff:
  assumes "valid_date s" "1 \<le> d"
  shows "get_current_cycle_start clock d (Some s) = Inr s \<longleftrightarrow> is_cycle_start d s"
proof
  assume "is_cycle_start d s"
  then show "get_current_cycle_start clock d (Some s) = Inr s"
    by (simp add: is_cycle_start_def resolve_fixpoint)
next
  assume a: "get_current_cycle_start clock d (Some s) = Inr s"
  then have "spec_cycle_start d s = s"
    by (simp add: resolve_spec[OF assms] split: if_splits)
  then have "day (spec_cycle_start d s) = day s" "month (spec_cycle_start d s) = month s"
    by simp_all
  then have "day s = min d (days_in_month (year s) (month s))"
    by (auto simp add: spec_cycle_start_def split: if_splits)
  then show "is_cycle_start d s"
    using assms(1) by (simp add: is_cycle_start_def)
qed

lemma next_cycle_start_props:
  assumes "is_cycle_start d s" "1 \<le> d" "\<not> (year s = 9999 \<and> month s = 12)"
  shows "is_cycle_start d (next_cycle_start d s)" "date_lt s (next_cycle_start d s)"
proof -
  have v: "1 \<le> year s" "year s \<le> 9999" "1 \<le> month s" "month s \<le> 12"
    using assms(1) by (simp_all add: is_cycle_start_def valid_date_def)
  obtain y1 m1 where ym: "next_month (year s, month s) = (y1, m1)" by fastforce
  have m1: "1 \<le> m1" "m1 \<le> 12" "1 \<le> y1" "y1 \<le> 9999"
    using ym v assms(3) by (auto simp add: next_month_def split: if_splits)
  have b: "28 \<le> days_in_month y1 m1" "days_in_month y1 m1 \<le> 31"
    using days_in_month_bounds[of m1 y1] m1 by simp_all
  show "is_cycle_start d (next_cycle_start d s)"
    using m1 b assms(2) by (simp add: is_cycle_start_def next_cycle_start_def ym valid_date_def)
  show "date_lt s (next_cycle_start d s)"
    using ym v by (auto simp add: date_lt_def date_key_def next_cycle_start_def next_month_def
        split: if_splits)
qed

lemma spec_cycle_start_here:
  assumes "min d (days_in_month (year t) (month t)) \<le> day t"
  shows "spec_cycle_start d t =
    \<lparr>year = year t, month = month t, day = min d (days_in_month (year t) (month t))\<rparr>"
  using assms by (simp add: spec_cycle_start_def)

lemma spec_cycle_start_back:
  assumes "\<not> min d (days_in_month (year t) (month t)) \<le> day t"
    and "next_month (y0, m0) = (year t, month t)" "1 \<le> m0" "m0 \<le> 12"
  shows "spec_cycle_start d t = \<lparr>year = y0, month = m0, day = min d (days_in_month y0 m0)\<rparr>"
proof (cases "m0 = 12")
  case True
  then have "year t = y0 + 1" "month t = 1" using assms(2) by (simp_all add: next_month_def)
  then show ?thesis using assms(1) True by (simp add: spec_cycle_start_def)
next
  case False
  then have "year t = y0" "month t = m0 + 1" using assms(2) by (simp_all add: next_month_def)
  then show ?thesis using assms(1,3) by (simp add: spec_cycle_start_def)
qed

lemma date_le_unfold:
  "date_le a b \<longleftrightarrow>
     year a < year b \<or> year a = year b \<and> (month a < month b \<or> month a = month b \<and> day a \<le> day b)"
  by (auto simp add: date_le_def date_key_def)

lemma date_lt_unfold:
  "date_lt a b \<longleftrightarrow>
     year a < year b \<or> year a = year b \<and> (month a < month b \<or> month a = month b \<and> day a < day b)"
  by (auto simp add: date_lt_def date_key_def)

lemma cycle_membership:
  assumes "is_cycle_start d s" "1 \<le> d" "valid_date t"
  shows "get_current_cycle_start clock d (Some t) = Inr s \<longleftrightarrow>
           date_le s t \<and> date_lt t (next_cycle_start d s)"
proof -
  obtain y1 m1 where ym: "next_month (year s, month s) = (y1, m1)" by fastforce
  define n where "n = next_cycle_start d s"
  define DT where "DT = min d (days_in_month (year t) (month t))"
  have vs: "1 \<le> year s" "year s \<le> 9999" "1 \<le> month s" "month s \<le> 12"
    "day s = min d (days_in_month (year s) (month s))"
    using assms(1) by (simp_all add: is_cycle_start_def valid_date_def)
  have vt: "1 \<le> year t" "year t \<le> 9999" "1 \<le> month t" "month t \<le> 12" "1 \<le> day t"
    "day t \<le> days_in_month (year t) (month t)"
    using assms(3) by (simp_all add: valid_date_def)
  have n: "year n = y1" "month n = m1" "day n = min d (days_in_month y1 m1)"
    by (simp_all add: n_def next_cycle_start_def ym)
  have ym_cases: "(month s = 12 \<and> y1 = year s + 1 \<and> m1 = 1) \<or>
                  (month s \<noteq> 12 \<and> y1 = year s \<and> m1 = month s + 1)"
    using ym by (auto simp add: next_month_def split: if_splits)
  have R: "get_current_cycle_start clock d (Some t) =
      (if year t = 1 \<and> month t = 1 \<and> day t < min d 31 then Inl OverflowError
       else Inr (spec_cycle_start d t))"
    using resolve_spec[OF assms(3,2), of clock] by simp
  have s_eq: "\<And>y m dd. (\<lparr>year = y, month = m, day = dd\<rparr> = s) \<longleftrightarrow>
      (y = year s \<and> m = month s \<and> dd = day s)" by auto
  consider (same) "year t = year s" "month t = month s"
    | (following) "year t = y1" "month t = m1"
    | (other) "\<not> (year t = year s \<and> month t = month s)" "\<not> (year t = y1 \<and> month t = m1)"
    by blast
  then have "get_current_cycle_start clock d (Some t) = Inr s \<longleftrightarrow> date_le s t \<and> date_lt t n"
  proof cases
    case same
    have lt: "date_lt t n"
      using ym_cases same vs by (auto simp add: date_lt_unfold n)
    have le: "date_le s t \<longleftrightarrow> DT \<le> day t"
      using same vs by (simp add: date_le_unfold DT_def)
    show ?thesis
    proof (cases "DT \<le> day t")
      case True
      then have "\<not> (year t = 1 \<and> month t = 1 \<and> day t < min d 31)"
        by (auto simp add: DT_def)
      moreover have "spec_cycle_start d t = s"
        using spec_cycle_start_here[of d t] True same vs by (simp add: DT_def s_eq)
      ultimately show ?thesis using R lt le True by simp
    next
      case False
      then have "month (spec_cycle_start d t) \<noteq> month t"
        using vt by (simp add: spec_cycle_start_def DT_def)
      then have "spec_cycle_start d t \<noteq> s" using same by auto
      then show ?thesis using R le False by auto
    qed
  next
    case following
    have ne: "\<not> (year t = 1 \<and> month t = 1)"
      using ym_cases following vs by auto
    have le: "date_le s t"
      using ym_cases following vs by (auto simp add: date_le_unfold)
    have lt: "date_lt t n \<longleftrightarrow> \<not> DT \<le> day t"
      using following by (auto simp add: date_lt_unfold n DT_def)
    show ?thesis
    proof (cases "DT \<le> day t")
      case True
      then have "month (spec_cycle_start d t) = m1 \<and> year (spec_cycle_start d t) = y1"
        using following by (simp add: spec_cycle_start_def DT_def)
      then have "spec_cycle_start d t \<noteq> s" using ym_cases by auto
      then show ?thesis using R lt True by auto
    next
      case False
      have "spec_cycle_start d t =
          \<lparr>year = year s, month = month s, day = min d (days_in_month (year s) (month s))\<rparr>"
        using False ym following vs(3,4)
        by (intro spec_cycle_start_back) (simp_all add: DT_def)
      then have "spec_cycle_start d t = s" using vs(5) by (simp add: s_eq)
      moreover have "get_current_cycle_start clock d (Some t) = Inr (spec_cycle_start d t)"
        unfolding R using ne by auto
      ultimately show ?thesis using le lt False by simp
    qed
  next
    case other
    have "\<not> (date_le s t \<and> date_lt t n)"
    proof
      assume a: "date_le s t \<and> date_lt t n"
      then have 1: "year s < year t \<or> (year s = year t \<and> month s < month t)"
        using other(1) unfolding date_le_unfold by auto
      from a have 2: "year t < y1 \<or> (year t = y1 \<and> month t < m1)"
        using other(2) unfolding date_lt_unfold n by auto
      from 1 2 ym_cases vs(3,4) vt(3,4) show False by arith
    qed
    moreover have "spec_cycle_start d t \<noteq> s"
    proof (cases "DT \<le> day t")
      case True
      then have "year (spec_cycle_start d t) = year t \<and> month (spec_cycle_start d t) = month t"
        by (simp add: spec_cycle_start_def DT_def)
      then show ?thesis using other(1) by auto
    next
      case False
      then have "next_month (year (spec_cycle_start d t), month (spec_cycle_start d t))
          = (year t, month t)"
        using vt by (simp add: spec_cycle_start_def DT_def next_month_def)
      then show ?thesis using other(2) ym by auto
    qed
    ultimately show ?thesis using R by auto
  qed
  then show ?thesis by (simp add: n_def)
qed


lemma after_32_days:
  assumes "is_cycle_start d s" "1 \<le> d" "date_add_days s 32 = Inr ref"
  shows "valid_date ref"
    and "date_le (next_cycle_start d s) ref"
    and "date_lt ref (next_cycle_start d (next_cycle_start d s))"
    and "\<not> (year s = 9999 \<and> month s = 12)"
    and "(year ref, month ref) = next_month (year s, month s) \<or>
         (year ref, month ref) = next_month (next_month (year s, month s)) \<and> day ref \<le> 4"
proof -
  obtain y1 m1 where ym1: "next_month (year s, month s) = (y1, m1)" by fastforce
  obtain y2 m2 where ym2: "next_month (y1, m1) = (y2, m2)" by fastforce
  define dim where "dim = days_in_month (year s) (month s)"
  define dim1 where "dim1 = days_in_month y1 m1"
  define dim2 where "dim2 = days_in_month y2 m2"
  define r where "r = day s + 32 - dim"
  have v: "valid_date s" using assms(1) by (simp add: is_cycle_start_def)
  have vs: "valid_date s" "1 \<le> year s" "year s \<le> 9999" "1 \<le> month s" "month s \<le> 12"
    "day s = min d dim"
    using assms(1) v by (simp_all add: is_cycle_start_def valid_date_def dim_def)
  have m1: "1 \<le> m1" "m1 \<le> 12" "year s \<le> y1" "y1 \<le> year s + 1"
    using next_month_valid[of "month s" "year s"] vs by (simp_all add: ym1)
  have m2: "1 \<le> m2" "m2 \<le> 12" "y1 \<le> y2" "y2 \<le> y1 + 1"
    using next_month_valid[of m1 y1] m1 by (simp_all add: ym2)
  have b: "28 \<le> dim" "dim \<le> 31"
    using days_in_month_bounds[of "month s" "year s"] vs by (simp_all add: dim_def)
  have b1: "28 \<le> dim1" "dim1 \<le> 31"
    using days_in_month_bounds[of m1 y1] m1 by (simp_all add: dim1_def)
  have b2: "28 \<le> dim2" "dim2 \<le> 31"
    using days_in_month_bounds[of m2 y2] m2 by (simp_all add: dim2_def)
  have lt12: "y1 < y2 \<or> (y1 = y2 \<and> m1 < m2)"
    using ym2 m1 by (auto simp add: next_month_def split: if_splits)
  have n: "next_cycle_start d s = \<lparr>year = y1, month = m1, day = min d dim1\<rparr>"
    by (simp add: next_cycle_start_def ym1 dim1_def)
  have nn: "next_cycle_start d \<lparr>year = y1, month = m1, day = min d dim1\<rparr>
      = \<lparr>year = y2, month = m2, day = min d dim2\<rparr>"
    by (simp add: next_cycle_start_def ym2 dim2_def)
  have A: "date_add_days s 32 =
      (if year s = 9999 \<and> month s = 12 then Inl OverflowError
       else if r \<le> dim1 then Inr \<lparr>year = y1, month = m1, day = r\<rparr>
       else if y1 = 9999 \<and> m1 = 12 then Inl OverflowError
       else Inr \<lparr>year = y2, month = m2, day = r - dim1\<rparr>)"
    unfolding add_32[OF vs(1)] by (simp add: Let_def ym1 ym2 dim_def dim1_def r_def)
  show no: "\<not> (year s = 9999 \<and> month s = 12)"
    using assms(3) unfolding A by auto
  have y1: "y1 \<le> 9999" using no ym1 vs by (auto simp add: next_month_def split: if_splits)
  consider (near) "r \<le> dim1" "ref = \<lparr>year = y1, month = m1, day = r\<rparr>"
    | (far) "\<not> r \<le> dim1" "\<not> (y1 = 9999 \<and> m1 = 12)"
        "ref = \<lparr>year = y2, month = m2, day = r - dim1\<rparr>"
    using assms(3) no unfolding A by (auto split: if_splits)
  then have "valid_date ref \<and> date_le (next_cycle_start d s) ref \<and>
      date_lt ref (next_cycle_start d (next_cycle_start d s)) \<and>
      ((year ref, month ref) = (y1, m1) \<or> (year ref, month ref) = (y2, m2) \<and> day ref \<le> 4)"
  proof cases
    case near
    have "2 \<le> r" using vs(6) assms(2) b unfolding r_def min_def by (auto split: if_splits)
    moreover have "min d dim1 \<le> r"
      using vs(6) b b1 near(1) unfolding r_def min_def by (auto split: if_splits)
    ultimately show ?thesis
      using near vs(2) m1 y1 lt12
      by (auto simp add: valid_date_def dim1_def[symmetric] date_le_unfold date_lt_unfold n nn)
  next
    case far
    have y2: "y2 \<le> 9999" using far(2) ym2 y1 by (auto simp add: next_month_def split: if_splits)
    have "1 \<le> r - dim1" "r - dim1 \<le> 4"
      using far(1) vs(6) b b1 unfolding r_def min_def by (auto split: if_splits)
    moreover have "r - dim1 < min d dim2"
      using vs(6) b b1 b2 assms(2) unfolding r_def min_def by (auto split: if_splits)
    ultimately show ?thesis
      using far vs(2) m1 m2 y2 lt12 b2
      by (auto simp add: valid_date_def dim2_def[symmetric] date_le_unfold date_lt_unfold n nn)
  qed
  then show "valid_date ref" "date_le (next_cycle_start d s) ref"
    "date_lt ref (next_cycle_start d (next_cycle_start d s))"
    "(year ref, month ref) = next_month (year s, month s) \<or>
         (year ref, month ref) = next_month (next_month (year s, month s)) \<and> day ref \<le> 4"
    by (simp_all add: ym1 ym2)
qed

lemma resolve_after_32:
  assumes "is_cycle_start d s" "1 \<le> d" "date_add_days s 32 = Inr ref"
  shows "get_current_cycle_start clock d (Some ref) = Inr (next_cycle_start d s)"
proof -
  note a = after_32_days[OF assms]
  have "is_cycle_start d (next_cycle_start d s)"
    using next_cycle_start_props(1)[OF assms(1,2) a(4)] .
  from cycle_membership[OF this assms(2) a(1), of clock] a(2,3) show ?thesis by simp
qed


text \<open>
  Claim C3, as stated, says that the reference date 32 days after a cycle start lies in the
  following month. For anchor 31 the cycle start 2023-01-31 is followed, 32 days later, by
  2023-03-04: the offset skips February altogether.
\<close>

theorem offset_32_leaves_following_month_counterexample:
  "valid_date \<lparr>year = 2023, month = 1, day = 31\<rparr> \<and>
   get_current_cycle_start \<lparr>year = 2024, month = 3, day = 5\<rparr> 31
      (Some \<lparr>year = 2023, month = 1, day = 31\<rparr>) = Inr \<lparr>year = 2023, month = 1, day = 31\<rparr> \<and>
   date_add_days \<lparr>year = 2023, month = 1, day = 31\<rparr> 32
      = Inr \<lparr>year = 2023, month = 3, day = 4\<rparr> \<and>
   next_month (2023, 1) = (2023, 2) \<and>
   (year \<lparr>year = 2023, month = 3, day = 4\<rparr>, month \<lparr>year = 2023, month = 3, day = 4\<rparr>)
      \<noteq> next_month (2023, 1)"
proof -
  have v: "valid_date \<lparr>year = 2023, month = 1, day = 31\<rparr>" by (simp add: date_eval)
  show ?thesis
    by (simp add: v add_32[OF v] resolve_unfold[OF v] Let_def next_month_def date_eval)
qed

text \<open>
  Claim C3, amended. For every anchor day \<open>d\<close> in 1..31 and every cycle start \<open>s\<close> (a date
  the resolver maps to itself) for which \<open>s\<close> + 32 days is a representable date, resolving
  \<open>s\<close> + 32 days yields the start of the immediately next cycle: the clamped anchor of the
  calendar month after \<open>s\<close>, itself a cycle start and strictly after \<open>s\<close>. The dates that
  resolve to \<open>s\<close> are exactly those from \<open>s\<close> up to, not including, that next start, so
  between consecutive cycles no date is skipped and none is counted twice, whatever the
  month lengths. The reference date itself lands in the following month or in the first
  four days of the month after it, from where the resolver steps back one month.
\<close>

theorem next_cycle_after_32_days:
  assumes "1 \<le> d" "d \<le> 31" "valid_date s"
    and "get_current_cycle_start clock d (Some s) = Inr s"
    and "date_add_days s 32 = Inr ref"
  shows "get_current_cycle_start clock d (Some ref) = Inr (next_cycle_start d s)
    \<and> get_current_cycle_start clock d (Some (next_cycle_start d s)) = Inr (next_cycle_start d s)
    \<and> valid_date (next_cycle_start d s)
    \<and> date_lt s (next_cycle_start d s)
    \<and> (\<forall>t. valid_date t \<longrightarrow>
          (get_current_cycle_start clock d (Some t) = Inr s \<longleftrightarrow>
             date_le s t \<and> date_lt t (next_cycle_start d s)))
    \<and> ((year ref, month ref) = next_month (year s, month s) \<or>
        (year ref, month ref) = next_month (next_month (year s, month s)) \<and> day ref \<le> 4)"
proof -
  have cs: "is_cycle_start d s"
    using assms(4) is_cycle_start_iff[OF assms(3,1)] by simp
  note a = after_32_days[OF cs assms(1,5)]
  note n = next_cycle_start_props[OF cs assms(1) a(4)]
  have nv: "valid_date (next_cycle_start d s)"
    using n(1) by (simp add: is_cycle_start_def)
  have "get_current_cycle_start clock d (Some ref) = Inr (next_cycle_start d s)"
    using resolve_after_32[OF cs assms(1,5)] .
  moreover have "get_current_cycle_start clock d (Some (next_cycle_start d s))
      = Inr (next_cycle_start d s)"
    using is_cycle_start_iff[OF nv assms(1)] n(1) by simp
  moreover have "\<forall>t. valid_date t \<longrightarrow>
          (get_current_cycle_start clock d (Some t) = Inr s \<longleftrightarrow>
             date_le s t \<and> date_lt t (next_cycle_start d s))"
    using cycle_membership[OF cs assms(1)] by blast
  ultimately show ?thesis using nv n(2) a(5) by blast
qed

theorem next_cycle_after_32_days_witness:
  "(1::int) \<le> 31 \<and> (31::int) \<le> 31 \<and> valid_date \<lparr>year = 2023, month = 1, day = 31\<rparr> \<and>
   get_current_cycle_start \<lparr>year = 2024, month = 3, day = 5\<rparr> 31
      (Some \<lparr>year = 2023, month = 1, day = 31\<rparr>) = Inr \<lparr>year = 2023, month = 1, day = 31\<rparr> \<and>
   date_add_days \<lparr>year = 2023, month = 1, day = 31\<rparr> 32
      = Inr \<lparr>year = 2023, month = 3, day = 4\<rparr> \<and>
   get_current_cycle_start \<lparr>year = 2024, month = 3, day = 5\<rparr> 31
      (Some \<lparr>year = 2023, month = 3, day = 4\<rparr>) = Inr \<lparr>year = 2023, month = 2, day = 28\<rparr> \<and>
   date_lt \<lparr>year = 2023, month = 1, day = 31\<rparr> \<lparr>year = 2023, month = 2, day = 28\<rparr>"
proof -
  have v: "valid_date \<lparr>year = 2023, month = 1, day = 31\<rparr>" by (simp add: date_eval)
  have f: "get_current_cycle_start \<lparr>year = 2024, month = 3, day = 5\<rparr> 31
      (Some \<lparr>year = 2023, month = 1, day = 31\<rparr>) = Inr \<lparr>year = 2023, month = 1, day = 31\<rparr>"
    by (simp add: resolve_unfold[OF v] date_eval)
  have a: "date_add_days \<lparr>year = 2023, month = 1, day = 31\<rparr> 32
      = Inr \<lparr>year = 2023, month = 3, day = 4\<rparr>"
    by (simp add: add_32[OF v] Let_def next_month_def date_eval)
  have n: "next_cycle_start 31 \<lparr>year = 2023, month = 1, day = 31\<rparr>
      = \<lparr>year = 2023, month = 2, day = 28\<rparr>"
    by (simp add: next_cycle_start_def next_month_def date_eval)
  show ?thesis
    using next_cycle_after_32_days[OF _ _ v f a] v f a by (simp add: n)
qed

section \<open>The statement aggregator and its queries\<close>

lemma date_lt_imp_le: "date_lt a b \<Longrightarrow> date_le a b"
  by (simp add: date_lt_def date_le_def)

lemma date_le_refl: "date_le a a"
  by (simp add: date_le_def)

lemma date_lt_irrefl: "\<not> date_lt a a"
  by (simp add: date_lt_def)

lemma mset_statement_transactions:
  "mset (statement_transactions db uid cs nxt) =
     filter_mset (\<lambda>t. t_user_id t = uid \<and> date_le cs (t_date t) \<and> date_lt (t_date t) nxt)
       (mset (transactions db))"
  by (simp add: statement_transactions_def)

lemma mset_open_cycle_transactions:
  "mset (open_cycle_transactions db uid cs) =
     filter_mset (\<lambda>t. t_user_id t = uid \<and> date_le cs (t_date t)) (mset (transactions db))"
  by (simp add: open_cycle_transactions_def)

lemma set_statement_transactions:
  "set (statement_transactions db uid cs nxt) =
     {t \<in> set (transactions db). t_user_id t = uid \<and> date_le cs (t_date t) \<and> date_lt (t_date t) nxt}"
  by (simp add: statement_transactions_def)

text \<open>Whatever date the resolver returns is a cycle start of its anchor day.\<close>

lemma date_new_Inr:
  assumes "date_new y m d = Inr r"
  shows "r = \<lparr>year = y, month = m, day = d\<rparr>" "valid_date r"
  using assms by (auto simp add: date_new_def valid_date_def split: if_splits)

lemma resolve_is_cycle_start:
  assumes "get_current_cycle_start clock d today_arg = Inr r"
  shows "is_cycle_start d r" "1 \<le> d"
proof -
  obtain y m where "date_new y m (min d (days_in_month y m)) = Inr r"
    using assms
    by (auto simp add: get_current_cycle_start_def get_actual_day_def monthrange_def Let_def
        split: sum.splits if_splits)
  from date_new_Inr[OF this] have c: "is_cycle_start d r"
    by (simp add: is_cycle_start_def)
  then show "is_cycle_start d r" .
  from c show "1 \<le> d"
    unfolding is_cycle_start_def valid_date_def by arith
qed

text \<open>
  What the two reading routes put into their answers: \<^const>\<open>download_statement\<close> the rows
  of the statement query between the selected cycle start and the date the resolver
  returns, for the anchor day the user has now, 32 days after that start;
  \<^const>\<open>index\<close> the rows of the open query from the cycle start resolved from the clock.
\<close>

lemma download_statement_Statement:
  fixes ops :: "'f float_ops"
  assumes "download_statement ops clock db session year_arg month_arg = Statement st"
  shows "\<exists>cu b ref nxt.
           current_user db session = Some cu \<and> b \<in> set (budgets db) \<and>
           b_user_id b = u_id cu \<and> month_start_date b = st_cycle_start st \<and>
           date_add_days (st_cycle_start st) 32 = Inr ref \<and>
           get_current_cycle_start clock (salary_credit_day cu) (Some ref) = Inr nxt \<and>
           st_rows st = map statement_row
             (statement_transactions db (u_id cu) (st_cycle_start st) nxt) \<and>
           st_operator st = username cu \<and> st_allocation st = salary_credited b \<and>
           st_total_spent st = f_sum ops (map amount
             (statement_transactions db (u_id cu) (st_cycle_start st) nxt)) \<and>
           st_remaining_balance st = f_sub ops (salary_credited b) (st_total_spent st)"
proof -
  obtain cu where cu: "current_user db session = Some cu"
    using assms by (auto simp add: download_statement_def split: option.splits)
  define sel :: "'f response + 'f monthly_budget \<times> date" where "sel =
     (if year_arg \<noteq> None \<and> year_arg \<noteq> Some 0 \<and> month_arg \<noteq> None \<and> month_arg \<noteq> Some 0
      then
        (case find (\<lambda>b. b_user_id b = u_id cu \<and>
                         year (month_start_date b) = the year_arg \<and>
                         month (month_start_date b) = the month_arg) (budgets db) of
           None \<Rightarrow>
             (case date_new (the year_arg) (the month_arg) 1 of
                Inl e \<Rightarrow> Inl (Raised e)
              | Inr first \<Rightarrow> Inl (Redirect ''index'' [NoDataForMonth first]))
         | Some budget \<Rightarrow> Inr (budget, month_start_date budget))
      else
        (case get_current_cycle_start clock (salary_credit_day cu) None of
           Inl e \<Rightarrow> Inl (Raised e)
         | Inr cycle_start \<Rightarrow>
             (case budget_for db (u_id cu) cycle_start of
                None \<Rightarrow> Inl (Redirect ''index'' [NoDataForCurrentCycle])
              | Some budget \<Rightarrow> Inr (budget, cycle_start))))"
  have unf: "download_statement ops clock db session year_arg month_arg =
     (case sel of
        Inl early \<Rightarrow> early
      | Inr (budget, cycle_start) \<Rightarrow>
          (case date_add_days cycle_start 32 of
             Inl e \<Rightarrow> Raised e
           | Inr next_month_date \<Rightarrow>
               (case get_current_cycle_start clock (salary_credit_day cu)
                       (Some next_month_date) of
                  Inl e \<Rightarrow> Raised e
                | Inr next_start \<Rightarrow>
                    (let txs = statement_transactions db (u_id cu) cycle_start next_start;
                         (total_spent, remaining_balance) = aggregate ops budget txs
                     in Statement
                          \<lparr>st_operator = username cu, st_cycle_start = cycle_start,
                           st_allocation = salary_credited budget,
                           st_total_spent = total_spent,
                           st_remaining_balance = remaining_balance,
                           st_rows = map statement_row txs\<rparr>))))"
    by (simp only: download_statement_def sel_def Let_def cu option.case)
  have early: "sel \<noteq> Inl (Statement st)"
    by (auto simp add: sel_def split: option.splits sum.splits)
  obtain b cs where sel: "sel = Inr (b, cs)"
    using assms early unfolding unf by (cases sel) auto
  have b: "b \<in> set (budgets db) \<and> b_user_id b = u_id cu \<and> month_start_date b = cs"
    using sel unfolding sel_def
    by (auto simp add: budget_for_def find_Some_iff split: if_splits option.splits sum.splits)
  obtain ref where ref: "date_add_days cs 32 = Inr ref"
    using assms unfolding unf sel by (cases "date_add_days cs 32") auto
  obtain nxt where
    nxt: "get_current_cycle_start clock (salary_credit_day cu) (Some ref) = Inr nxt"
    using assms unfolding unf sel
    by (cases "get_current_cycle_start clock (salary_credit_day cu) (Some ref)")
      (auto simp add: ref)
  have "st = \<lparr>st_operator = username cu, st_cycle_start = cs,
              st_allocation = salary_credited b,
              st_total_spent = f_sum ops (map amount (statement_transactions db (u_id cu) cs nxt)),
              st_remaining_balance = f_sub ops (salary_credited b)
                (f_sum ops (map amount (statement_transactions db (u_id cu) cs nxt))),
              st_rows = map statement_row (statement_transactions db (u_id cu) cs nxt)\<rparr>"
    using assms unfolding unf sel by (simp add: ref nxt Let_def aggregate_def)
  then show ?thesis using cu b ref nxt by auto
qed

lemma index_Home:
  assumes "index ops clock db session = Home hv"
  shows "\<exists>cu. current_user db session = Some cu \<and>
           get_current_cycle_start clock (salary_credit_day cu) None = Inr (hv_cycle_start hv) \<and>
           budget_for db (u_id cu) (hv_cycle_start hv) = Some (hv_budget hv) \<and>
           hv_transactions hv = open_cycle_transactions db (u_id cu) (hv_cycle_start hv) \<and>
           hv_total_spent hv = f_sum ops (map amount (hv_transactions hv)) \<and>
           hv_remaining_balance hv
             = f_sub ops (salary_credited (hv_budget hv)) (hv_total_spent hv)"
  using assms
  by (auto simp add: index_def aggregate_def Let_def split: option.splits sum.splits)


text \<open>The routes evaluated on the example data.\<close>

lemmas demo_eval = demo_clock_def demo_user_def demo_budget_def demo_budget_april_def
  demo_tx_def demo_db_def demo_db_april_def current_user_def load_user_def budget_for_def

lemma demo_ops_simps [simp]:
  "f_sum demo_ops xs = foldl (+) 0 xs" "f_sub demo_ops a b = a - b" "\<not> f_isnan demo_ops a"
  by (simp_all add: demo_ops_def)

lemma demo_resolve:
  "get_current_cycle_start demo_clock 8 None = Inr \<lparr>year = 2024, month = 3, day = 8\<rparr>"
  by (simp add: get_current_cycle_start_def get_actual_day_def monthrange_def demo_clock_def
      date_eval)

lemma demo_add_32:
  "date_add_days \<lparr>year = 2024, month = 3, day = 8\<rparr> 32 = Inr \<lparr>year = 2024, month = 4, day = 9\<rparr>"
  "date_add_days \<lparr>year = 2024, month = 4, day = 8\<rparr> 32 = Inr \<lparr>year = 2024, month = 5, day = 10\<rparr>"
  "date_add_days \<lparr>year = 2024, month = 4, day = 15\<rparr> 32 = Inr \<lparr>year = 2024, month = 5, day = 17\<rparr>"
  by (simp_all add: add_32 Let_def next_month_def date_eval)

lemma demo_resolve_next:
  "get_current_cycle_start c 8 (Some \<lparr>year = 2024, month = 3, day = 8\<rparr>)
     = Inr \<lparr>year = 2024, month = 3, day = 8\<rparr>"
  "get_current_cycle_start c 8 (Some \<lparr>year = 2024, month = 4, day = 9\<rparr>)
     = Inr \<lparr>year = 2024, month = 4, day = 8\<rparr>"
  "get_current_cycle_start c 8 (Some \<lparr>year = 2024, month = 5, day = 10\<rparr>)
     = Inr \<lparr>year = 2024, month = 5, day = 8\<rparr>"
  "get_current_cycle_start c 15 (Some \<lparr>year = 2024, month = 4, day = 9\<rparr>)
     = Inr \<lparr>year = 2024, month = 3, day = 15\<rparr>"
  "get_current_cycle_start c 15 (Some \<lparr>year = 2024, month = 5, day = 17\<rparr>)
     = Inr \<lparr>year = 2024, month = 5, day = 15\<rparr>"
  by (simp_all add: resolve_unfold date_eval)

lemma demo_statement_transactions:
  "statement_transactions demo_db_april 1 \<lparr>year = 2024, month = 3, day = 8\<rparr>
      \<lparr>year = 2024, month = 4, day = 8\<rparr> =
      [demo_tx 1 1 \<lparr>year = 2024, month = 3, day = 8\<rparr> 100.5,
       demo_tx 2 1 \<lparr>year = 2024, month = 3, day = 9\<rparr> 40]"
  "statement_transactions demo_db_april 1 \<lparr>year = 2024, month = 4, day = 8\<rparr>
      \<lparr>year = 2024, month = 5, day = 8\<rparr> =
      [demo_tx 3 1 \<lparr>year = 2024, month = 4, day = 8\<rparr> 7]"
  by (simp_all add: statement_transactions_def demo_eval date_le_def date_lt_def date_key_def)

lemma demo_open_cycle_transactions:
  "open_cycle_transactions demo_db_april 1 \<lparr>year = 2024, month = 3, day = 8\<rparr> =
      [demo_tx 3 1 \<lparr>year = 2024, month = 4, day = 8\<rparr> 7,
       demo_tx 2 1 \<lparr>year = 2024, month = 3, day = 9\<rparr> 40,
       demo_tx 1 1 \<lparr>year = 2024, month = 3, day = 8\<rparr> 100.5]"
  by (simp add: open_cycle_transactions_def demo_eval date_le_def date_lt_def date_key_def)

lemma demo_current_user:
  "current_user demo_db_april (Some 1) = Some demo_user"
  "salary_credit_day demo_user = 8" "u_id demo_user = 1" "username demo_user = ''asha''"
  by (simp_all add: demo_eval)

lemma demo_download:
  "download_statement demo_ops demo_clock demo_db_april (Some 1) (Some 2024) (Some 3)
     = Statement demo_statement"
  "download_statement demo_ops demo_clock demo_db_april (Some 1) (Some 2024) (Some 4)
     = Statement demo_statement_april"
  "download_statement demo_ops demo_clock demo_db_april (Some 1) None None
     = Statement demo_statement"
proof -
  have f: "find (\<lambda>b. b_user_id b = 1 \<and> year (month_start_date b) = 2024 \<and>
                      month (month_start_date b) = 3) (budgets demo_db_april) = Some demo_budget"
    "find (\<lambda>b. b_user_id b = 1 \<and> year (month_start_date b) = 2024 \<and>
                      month (month_start_date b) = 4) (budgets demo_db_april)
       = Some demo_budget_april"
    "budget_for demo_db_april 1 \<lparr>year = 2024, month = 3, day = 8\<rparr> = Some demo_budget"
    by (simp_all add: demo_eval)
  have b: "month_start_date demo_budget = \<lparr>year = 2024, month = 3, day = 8\<rparr>"
    "month_start_date demo_budget_april = \<lparr>year = 2024, month = 4, day = 8\<rparr>"
    "salary_credited demo_budget = 1000" "salary_credited demo_budget_april = 1000"
    by (simp_all add: demo_budget_def demo_budget_april_def)
  show "download_statement demo_ops demo_clock demo_db_april (Some 1) (Some 2024) (Some 3)
     = Statement demo_statement"
    by (simp add: download_statement_def demo_current_user f b demo_add_32 demo_resolve_next
        demo_statement_transactions aggregate_def Let_def demo_tx_def demo_statement_def
        statement_row_def del: One_nat_def)
  show "download_statement demo_ops demo_clock demo_db_april (Some 1) (Some 2024) (Some 4)
     = Statement demo_statement_april"
    by (simp add: download_statement_def demo_current_user f b demo_add_32 demo_resolve_next
        demo_statement_transactions aggregate_def Let_def demo_tx_def demo_statement_april_def
        statement_row_def del: One_nat_def)
  show "download_statement demo_ops demo_clock demo_db_april (Some 1) None None
     = Statement demo_statement"
    by (simp add: download_statement_def demo_current_user f b demo_resolve demo_add_32
        demo_resolve_next demo_statement_transactions aggregate_def Let_def demo_tx_def
        demo_statement_def statement_row_def del: One_nat_def)
qed

lemma demo_index: "index demo_ops demo_clock demo_db_april (Some 1) = Home demo_home"
proof -
  have b: "budget_for demo_db_april 1 \<lparr>year = 2024, month = 3, day = 8\<rparr> = Some demo_budget"
    "salary_credited demo_budget = 1000"
    by (simp_all add: demo_eval)
  show ?thesis
    by (simp add: index_def demo_current_user demo_resolve b demo_open_cycle_transactions
        aggregate_def Let_def demo_tx_def demo_home_def del: One_nat_def)
qed

lemma demo_registered_eq:
  "demo_registered =
     \<lparr>users = [\<lparr>u_id = 1, username = ''asha'', password_hash = ''pbkdf2'',
                 salary_credit_day = 8\<rparr>],
      budgets = [\<lparr>b_id = 1, b_user_id = 1,
                   month_start_date = \<lparr>year = 2024, month = 3, day = 8\<rparr>,
                   salary_credited = 1000\<rparr>],
      transactions = []\<rparr>"
  by (simp add: demo_registered_def register_def empty_db_def next_id_def Let_def
      sqlite_integer_def get_current_cycle_start_def get_actual_day_def monthrange_def date_eval)

lemma demo_anchor_changed_eq:
  "demo_anchor_changed =
     \<lparr>users = [\<lparr>u_id = 1, username = ''asha'', password_hash = ''pbkdf2'',
                 salary_credit_day = 15\<rparr>],
      budgets = [\<lparr>b_id = 1, b_user_id = 1,
                   month_start_date = \<lparr>year = 2024, month = 3, day = 8\<rparr>,
                   salary_credited = 1000\<rparr>,
                 \<lparr>b_id = 2, b_user_id = 1,
                   month_start_date = \<lparr>year = 2024, month = 4, day = 15\<rparr>,
                   salary_credited = 1000\<rparr>],
      transactions = [\<lparr>t_id = 1, t_user_id = 1,
                        t_date = \<lparr>year = 2024, month = 3, day = 15\<rparr>,
                        t_time = (9, 30, 0, 0), amount = 40, description = ''groceries''\<rparr>]\<rparr>"
proof -
  have a: "fst (add_transaction demo_ops \<lparr>year = 2024, month = 3, day = 15\<rparr> (9, 30, 0, 0)
                  demo_registered (Some 1) (Inr 40) (Some ''groceries'')) =
     \<lparr>users = [\<lparr>u_id = 1, username = ''asha'', password_hash = ''pbkdf2'',
                 salary_credit_day = 8\<rparr>],
      budgets = [\<lparr>b_id = 1, b_user_id = 1,
                   month_start_date = \<lparr>year = 2024, month = 3, day = 8\<rparr>,
                   salary_credited = 1000\<rparr>],
      transactions = [\<lparr>t_id = 1, t_user_id = 1,
                        t_date = \<lparr>year = 2024, month = 3, day = 15\<rparr>,
                        t_time = (9, 30, 0, 0), amount = 40, description = ''groceries''\<rparr>]\<rparr>"
    by (simp add: demo_registered_eq add_transaction_def current_user_def load_user_def
        next_id_def del: One_nat_def)
  have r: "get_current_cycle_start \<lparr>year = 2024, month = 4, day = 16\<rparr> 15 None
             = Inr \<lparr>year = 2024, month = 4, day = 15\<rparr>"
    by (simp add: get_current_cycle_start_def get_actual_day_def monthrange_def date_eval)
  show ?thesis
    by (simp add: demo_anchor_changed_def a update_profile_def set_budget_def current_user_def
        load_user_def sqlite_integer_def next_id_def r del: One_nat_def)
qed


text \<open>
  Claim C4, as stated, says that a transaction dated on the next cycle start is left out of
  the current statement and belongs to the next one. The end of a statement's window is
  resolved with the anchor day the user has at the time of the download, not the one the
  cycle was opened with. The user of \<^const>\<open>demo_anchor_changed\<close> opened a cycle on
  2024-03-08 with anchor 8, spent on 2024-03-15, changed the anchor to 15 and opened her
  next cycle on 2024-04-15: the statement of the March cycle now ends before 2024-03-15,
  the statement of the next cycle begins on 2024-04-15, and neither lists the transaction
  of 2024-03-15; nor does the home view.
\<close>

theorem anchor_change_drops_transaction_counterexample:
  "map t_user_id (transactions demo_anchor_changed) = [1] \<and>
   map t_date (transactions demo_anchor_changed) = [\<lparr>year = 2024, month = 3, day = 15\<rparr>] \<and>
   map b_user_id (budgets demo_anchor_changed) = [1, 1] \<and>
   map month_start_date (budgets demo_anchor_changed)
     = [\<lparr>year = 2024, month = 3, day = 8\<rparr>, \<lparr>year = 2024, month = 4, day = 15\<rparr>] \<and>
   date_add_days \<lparr>year = 2024, month = 3, day = 8\<rparr> 32 = Inr \<lparr>year = 2024, month = 4, day = 9\<rparr> \<and>
   get_current_cycle_start \<lparr>year = 2024, month = 4, day = 16\<rparr> 15
       (Some \<lparr>year = 2024, month = 4, day = 9\<rparr>) = Inr \<lparr>year = 2024, month = 3, day = 15\<rparr> \<and>
   download_statement demo_ops \<lparr>year = 2024, month = 4, day = 16\<rparr> demo_anchor_changed (Some 1)
       (Some 2024) (Some 3)
     = Statement \<lparr>st_operator = ''asha'', st_cycle_start = \<lparr>year = 2024, month = 3, day = 8\<rparr>,
                  st_allocation = 1000, st_total_spent = 0, st_remaining_balance = 1000,
                  st_rows = []\<rparr> \<and>
   download_statement demo_ops \<lparr>year = 2024, month = 4, day = 16\<rparr> demo_anchor_changed (Some 1)
       (Some 2024) (Some 4)
     = Statement \<lparr>st_operator = ''asha'', st_cycle_start = \<lparr>year = 2024, month = 4, day = 15\<rparr>,
                  st_allocation = 1000, st_total_spent = 0, st_remaining_balance = 1000,
                  st_rows = []\<rparr> \<and>
   download_statement demo_ops \<lparr>year = 2024, month = 4, day = 16\<rparr> demo_anchor_changed (Some 1)
       None None
     = Statement \<lparr>st_operator = ''asha'', st_cycle_start = \<lparr>year = 2024, month = 4, day = 15\<rparr>,
                  st_allocation = 1000, st_total_spent = 0, st_remaining_balance = 1000,
                  st_rows = []\<rparr> \<and>
   index demo_ops \<lparr>year = 2024, month = 4, day = 16\<rparr> demo_anchor_changed (Some 1)
     = Home \<lparr>hv_budget = \<lparr>b_id = 2, b_user_id = 1,
                           month_start_date = \<lparr>year = 2024, month = 4, day = 15\<rparr>,
                           salary_credited = 1000\<rparr>,
              hv_transactions = [], hv_total_spent = 0, hv_remaining_balance = 1000,
              hv_cycle_start = \<lparr>year = 2024, month = 4, day = 15\<rparr>\<rparr>"
proof -
  have r: "get_current_cycle_start \<lparr>year = 2024, month = 4, day = 16\<rparr> 15 None
             = Inr \<lparr>year = 2024, month = 4, day = 15\<rparr>"
    by (simp add: get_current_cycle_start_def get_actual_day_def monthrange_def date_eval)
  have d: "download_statement demo_ops \<lparr>year = 2024, month = 4, day = 16\<rparr> demo_anchor_changed
       (Some 1) (Some 2024) (Some 3)
     = Statement \<lparr>st_operator = ''asha'', st_cycle_start = \<lparr>year = 2024, month = 3, day = 8\<rparr>,
                  st_allocation = 1000, st_total_spent = 0, st_remaining_balance = 1000,
                  st_rows = []\<rparr>"
    "download_statement demo_ops \<lparr>year = 2024, month = 4, day = 16\<rparr> demo_anchor_changed
       (Some 1) (Some 2024) (Some 4)
     = Statement \<lparr>st_operator = ''asha'', st_cycle_start = \<lparr>year = 2024, month = 4, day = 15\<rparr>,
                  st_allocation = 1000, st_total_spent = 0, st_remaining_balance = 1000,
                  st_rows = []\<rparr>"
    "download_statement demo_ops \<lparr>year = 2024, month = 4, day = 16\<rparr> demo_anchor_changed
       (Some 1) None None
     = Statement \<lparr>st_operator = ''asha'', st_cycle_start = \<lparr>year = 2024, month = 4, day = 15\<rparr>,
                  st_allocation = 1000, st_total_spent = 0, st_remaining_balance = 1000,
                  st_rows = []\<rparr>"
    by (simp_all add: download_statement_def demo_anchor_changed_eq current_user_def
        load_user_def budget_for_def r demo_add_32 demo_resolve_next statement_transactions_def
        date_le_def date_lt_def date_key_def aggregate_def Let_def del: One_nat_def)
  have i: "index demo_ops \<lparr>year = 2024, month = 4, day = 16\<rparr> demo_anchor_changed (Some 1)
     = Home \<lparr>hv_budget = \<lparr>b_id = 2, b_user_id = 1,
                           month_start_date = \<lparr>year = 2024, month = 4, day = 15\<rparr>,
                           salary_credited = 1000\<rparr>,
              hv_transactions = [], hv_total_spent = 0, hv_remaining_balance = 1000,
              hv_cycle_start = \<lparr>year = 2024, month = 4, day = 15\<rparr>\<rparr>"
    by (simp add: index_def demo_anchor_changed_eq current_user_def load_user_def budget_for_def
        r open_cycle_transactions_def date_le_def date_key_def aggregate_def Let_def
        del: One_nat_def)
  have t: "map t_user_id (transactions demo_anchor_changed) = [1]"
    "map t_date (transactions demo_anchor_changed) = [\<lparr>year = 2024, month = 3, day = 15\<rparr>]"
    "map b_user_id (budgets demo_anchor_changed) = [1, 1]"
    "map month_start_date (budgets demo_anchor_changed)
     = [\<lparr>year = 2024, month = 3, day = 8\<rparr>, \<lparr>year = 2024, month = 4, day = 15\<rparr>]"
    by (simp_all add: demo_anchor_changed_eq del: One_nat_def)
  show ?thesis
    using d i t demo_add_32(1) demo_resolve_next(4)[of "\<lparr>year = 2024, month = 4, day = 16\<rparr>"]
    by (simp only: simp_thms)
qed

text \<open>
  Claim C4, amended. Whenever \<^const>\<open>download_statement\<close> answers with a statement, its
  rows are exactly (as a multiset) the rows of the user's transactions with cycle start
  \<open>\<le>\<close> date \<open><\<close> next start, where the next start is what the resolver returns, for the
  anchor day the user has at the time of the request, 32 days after the statement's
  cycle start. No transaction dated on that next start is in the statement, and each of
  the user's transactions dated on it is in the statement that begins on that date,
  whenever the user can download one. Whenever \<^const>\<open>index\<close> answers with the home view,
  the transactions it shows are exactly the user's transactions with date \<open>\<ge>\<close> the cycle
  start resolved from the clock, with no upper bound.
\<close>

theorem statement_window_half_open:
  "(download_statement ops clock db session year_arg month_arg = Statement st \<longrightarrow>
      (\<exists>cu ref nxt.
          current_user db session = Some cu \<and>
          date_add_days (st_cycle_start st) 32 = Inr ref \<and>
          get_current_cycle_start clock (salary_credit_day cu) (Some ref) = Inr nxt \<and>
          mset (st_rows st) = image_mset statement_row
            (filter_mset (\<lambda>t. t_user_id t = u_id cu \<and> date_le (st_cycle_start st) (t_date t) \<and>
                              date_lt (t_date t) nxt) (mset (transactions db))) \<and>
          (\<forall>t. t_date t = nxt \<longrightarrow> statement_row t \<notin> set (st_rows st)) \<and>
          (\<forall>clock' year_arg' month_arg' st' t.
              download_statement ops clock' db session year_arg' month_arg' = Statement st' \<and>
              st_cycle_start st' = nxt \<and>
              t \<in> set (transactions db) \<and> t_user_id t = u_id cu \<and> t_date t = nxt
              \<longrightarrow> statement_row t \<in> set (st_rows st'))))
   \<and> (index ops clock db session = Home hv \<longrightarrow>
        (\<exists>cu. current_user db session = Some cu \<and>
           get_current_cycle_start clock (salary_credit_day cu) None = Inr (hv_cycle_start hv) \<and>
           mset (hv_transactions hv) =
             filter_mset (\<lambda>t. t_user_id t = u_id cu \<and> date_le (hv_cycle_start hv) (t_date t))
               (mset (transactions db))))"
proof (intro conjI impI)
  assume a: "download_statement ops clock db session year_arg month_arg = Statement st"
  from download_statement_Statement[OF a] obtain cu ref nxt where
    cu: "current_user db session = Some cu" and
    ref: "date_add_days (st_cycle_start st) 32 = Inr ref" and
    nxt: "get_current_cycle_start clock (salary_credit_day cu) (Some ref) = Inr nxt" and
    rows: "st_rows st = map statement_row
             (statement_transactions db (u_id cu) (st_cycle_start st) nxt)"
    by blast
  have m: "mset (st_rows st) = image_mset statement_row
            (filter_mset (\<lambda>t. t_user_id t = u_id cu \<and> date_le (st_cycle_start st) (t_date t) \<and>
                              date_lt (t_date t) nxt) (mset (transactions db)))"
    by (simp add: rows mset_statement_transactions)
  have out: "statement_row t \<notin> set (st_rows st)" if "t_date t = nxt" for t :: "'a transaction"
  proof
    assume "statement_row t \<in> set (st_rows st)"
    then obtain t' where
      "t' \<in> set (statement_transactions db (u_id cu) (st_cycle_start st) nxt)"
      "statement_row t' = statement_row t"
      unfolding rows by auto
    then have "date_lt (t_date t') nxt" "t_date t' = t_date t"
      by (simp_all add: set_statement_transactions statement_row_def)
    then show False using that by (simp add: date_lt_irrefl)
  qed
  have inn: "statement_row t \<in> set (st_rows st')"
    if b: "download_statement ops clock' db session year_arg' month_arg' = Statement st'"
      and s: "st_cycle_start st' = nxt"
      and t: "t \<in> set (transactions db)" "t_user_id t = u_id cu" "t_date t = nxt"
    for clock' year_arg' month_arg' st' t
  proof -
    from download_statement_Statement[OF b] cu s obtain ref' nxt' where
      ref': "date_add_days nxt 32 = Inr ref'" and
      nxt': "get_current_cycle_start clock' (salary_credit_day cu) (Some ref') = Inr nxt'" and
      rows': "st_rows st' = map statement_row (statement_transactions db (u_id cu) nxt nxt')"
      by auto
    note c = resolve_is_cycle_start[OF nxt]
    have "nxt' = next_cycle_start (salary_credit_day cu) nxt"
      using resolve_after_32[OF c ref', of clock'] nxt' by simp
    moreover have "\<not> (year nxt = 9999 \<and> month nxt = 12)"
      using after_32_days(4)[OF c ref'] .
    ultimately have "date_lt nxt nxt'"
      using next_cycle_start_props(2)[OF c] by simp
    then have "t \<in> set (statement_transactions db (u_id cu) nxt nxt')"
      using t by (simp add: set_statement_transactions date_le_refl)
    then show ?thesis unfolding rows' by simp
  qed
  show "\<exists>cu ref nxt.
          current_user db session = Some cu \<and>
          date_add_days (st_cycle_start st) 32 = Inr ref \<and>
          get_current_cycle_start clock (salary_credit_day cu) (Some ref) = Inr nxt \<and>
          mset (st_rows st) = image_mset statement_row
            (filter_mset (\<lambda>t. t_user_id t = u_id cu \<and> date_le (st_cycle_start st) (t_date t) \<and>
                              date_lt (t_date t) nxt) (mset (transactions db))) \<and>
          (\<forall>t. t_date t = nxt \<longrightarrow> statement_row t \<notin> set (st_rows st)) \<and>
          (\<forall>clock' year_arg' month_arg' st' t.
              download_statement ops clock' db session year_arg' month_arg' = Statement st' \<and>
              st_cycle_start st' = nxt \<and>
              t \<in> set (transactions db) \<and> t_user_id t = u_id cu \<and> t_date t = nxt
              \<longrightarrow> statement_row t \<in> set (st_rows st'))"
    using cu ref nxt m out inn by blast
next
  assume "index ops clock db session = Home hv"
  from index_Home[OF this] show "\<exists>cu. current_user db session = Some cu \<and>
           get_current_cycle_start clock (salary_credit_day cu) None = Inr (hv_cycle_start hv) \<and>
           mset (hv_transactions hv) =
             filter_mset (\<lambda>t. t_user_id t = u_id cu \<and> date_le (hv_cycle_start hv) (t_date t))
               (mset (transactions db))"
    by (auto simp add: mset_open_cycle_transactions)
qed


theorem statement_window_half_open_witness:
  "download_statement demo_ops demo_clock demo_db_april (Some 1) (Some 2024) (Some 3)
     = Statement demo_statement \<and>
   download_statement demo_ops demo_clock demo_db_april (Some 1) (Some 2024) (Some 4)
     = Statement demo_statement_april \<and>
   index demo_ops demo_clock demo_db_april (Some 1) = Home demo_home \<and>
   date_add_days (st_cycle_start demo_statement) 32 = Inr \<lparr>year = 2024, month = 4, day = 9\<rparr> \<and>
   get_current_cycle_start demo_clock 8 (Some \<lparr>year = 2024, month = 4, day = 9\<rparr>)
     = Inr \<lparr>year = 2024, month = 4, day = 8\<rparr> \<and>
   st_cycle_start demo_statement_april = \<lparr>year = 2024, month = 4, day = 8\<rparr> \<and>
   demo_tx 3 1 \<lparr>year = 2024, month = 4, day = 8\<rparr> 7 \<in> set (transactions demo_db_april) \<and>
   mset (st_rows demo_statement) = image_mset statement_row
     (filter_mset (\<lambda>t. t_user_id t = 1 \<and> date_le \<lparr>year = 2024, month = 3, day = 8\<rparr> (t_date t) \<and>
                       date_lt (t_date t) \<lparr>year = 2024, month = 4, day = 8\<rparr>)
        (mset (transactions demo_db_april))) \<and>
   mset (st_rows demo_statement)
     = {#statement_row (demo_tx 1 1 \<lparr>year = 2024, month = 3, day = 8\<rparr> 100.5),
         statement_row (demo_tx 2 1 \<lparr>year = 2024, month = 3, day = 9\<rparr> 40)#} \<and>
   statement_row (demo_tx 3 1 \<lparr>year = 2024, month = 4, day = 8\<rparr> 7)
     \<notin> set (st_rows demo_statement) \<and>
   statement_row (demo_tx 3 1 \<lparr>year = 2024, month = 4, day = 8\<rparr> 7)
     \<in> set (st_rows demo_statement_april) \<and>
   mset (hv_transactions demo_home) =
     filter_mset (\<lambda>t. t_user_id t = 1 \<and> date_le \<lparr>year = 2024, month = 3, day = 8\<rparr> (t_date t))
       (mset (transactions demo_db_april))"
proof -
  let ?t = "demo_tx 3 1 \<lparr>year = 2024, month = 4, day = 8\<rparr> 7"
  have s: "st_cycle_start demo_statement = \<lparr>year = 2024, month = 3, day = 8\<rparr>"
    "st_cycle_start demo_statement_april = \<lparr>year = 2024, month = 4, day = 8\<rparr>"
    "hv_cycle_start demo_home = \<lparr>year = 2024, month = 3, day = 8\<rparr>"
    by (simp_all add: demo_statement_def demo_statement_april_def demo_home_def)
  have t: "?t \<in> set (transactions demo_db_april)" "t_user_id ?t = 1"
    "t_date ?t = \<lparr>year = 2024, month = 4, day = 8\<rparr>"
    by (simp_all add: demo_db_april_def demo_db_def demo_tx_def)
  note w = statement_window_half_open[where ops = demo_ops and clock = demo_clock
      and db = demo_db_april and session = "Some 1" and year_arg = "Some 2024"
      and month_arg = "Some 3" and st = demo_statement and hv = demo_home]
  from w demo_download(1) obtain cu ref nxt where
    cu: "current_user demo_db_april (Some 1) = Some cu" and
    ref: "date_add_days (st_cycle_start demo_statement) 32 = Inr ref" and
    nxt: "get_current_cycle_start demo_clock (salary_credit_day cu) (Some ref) = Inr nxt" and
    m: "mset (st_rows demo_statement) = image_mset statement_row
          (filter_mset (\<lambda>t. t_user_id t = u_id cu \<and>
                            date_le (st_cycle_start demo_statement) (t_date t) \<and>
                            date_lt (t_date t) nxt) (mset (transactions demo_db_april)))" and
    out: "\<forall>t. t_date t = nxt \<longrightarrow> statement_row t \<notin> set (st_rows demo_statement)" and
    inn: "\<forall>clock' year_arg' month_arg' st' t.
              download_statement demo_ops clock' demo_db_april (Some 1) year_arg' month_arg'
                = Statement st' \<and>
              st_cycle_start st' = nxt \<and>
              t \<in> set (transactions demo_db_april) \<and> t_user_id t = u_id cu \<and> t_date t = nxt
              \<longrightarrow> statement_row t \<in> set (st_rows st')"
    by blast
  from w demo_index obtain cu' where
    cu': "current_user demo_db_april (Some 1) = Some cu'" and
    h: "mset (hv_transactions demo_home) =
             filter_mset (\<lambda>t. t_user_id t = u_id cu' \<and>
                               date_le (hv_cycle_start demo_home) (t_date t))
               (mset (transactions demo_db_april))"
    by blast
  have e: "cu = demo_user" "cu' = demo_user" using cu cu' demo_current_user(1) by simp_all
  have r: "ref = \<lparr>year = 2024, month = 4, day = 9\<rparr>"
    using ref by (simp add: s demo_add_32)
  have n: "nxt = \<lparr>year = 2024, month = 4, day = 8\<rparr>"
    using nxt by (simp add: e r demo_current_user demo_resolve_next)
  have a1: "statement_row ?t \<notin> set (st_rows demo_statement)"
    using out t(3) n by simp
  have a2: "statement_row ?t \<in> set (st_rows demo_statement_april)"
    using inn[rule_format, of demo_clock "Some 2024" "Some 4" demo_statement_april ?t]
      demo_download(2) s(2) t
    by (simp add: n e demo_current_user(3))
  have a3: "mset (st_rows demo_statement)
     = {#statement_row (demo_tx 1 1 \<lparr>year = 2024, month = 3, day = 8\<rparr> 100.5),
         statement_row (demo_tx 2 1 \<lparr>year = 2024, month = 3, day = 9\<rparr> 40)#}"
    by (simp add: demo_statement_def statement_row_def demo_tx_def)
  show ?thesis
    using demo_download(1,2) demo_index demo_add_32(1) demo_resolve_next(2)[of demo_clock]
      s t(1) m h a1 a2 a3
    by (simp only: e n demo_current_user simp_thms)
qed


text \<open>
  The outcomes without data. When no allocation exists for the cycle start resolved from
  the clock, \<^const>\<open>index\<close> redirects to the budget form and \<^const>\<open>download_statement\<close>
  flashes a message and redirects to the home view; neither route writes to the database
  (their results carry no database). In the branch of \<^const>\<open>download_statement\<close> that
  selects the cycle by calendar year and month, the message is built with
  \<^verbatim>\<open>datetime.date(year, month, 1)\<close>, which raises \<^verbatim>\<open>ValueError\<close> unless the requested
  pair is a calendar month of the years 1 to 9999 (and \<^verbatim>\<open>OverflowError\<close> when one of the
  two numbers does not fit a C \<^verbatim>\<open>int\<close>).
\<close>

lemma index_no_allocation:
  assumes "current_user db session = Some cu"
    and "get_current_cycle_start clock (salary_credit_day cu) None = Inr cs"
    and "budget_for db (u_id cu) cs = None"
  shows "index ops clock db session = Redirect ''set_budget'' []"
  using assms by (simp add: index_def)

lemma download_no_allocation_current:
  assumes "current_user db session = Some cu"
    and "year_arg = None \<or> year_arg = Some 0 \<or> month_arg = None \<or> month_arg = Some 0"
    and "get_current_cycle_start clock (salary_credit_day cu) None = Inr cs"
    and "budget_for db (u_id cu) cs = None"
  shows "download_statement ops clock db session year_arg month_arg
           = Redirect ''index'' [NoDataForCurrentCycle]"
  using assms by (auto simp add: download_statement_def)

lemma download_no_allocation_month:
  assumes "current_user db session = Some cu" "y \<noteq> 0" "m \<noteq> 0"
    and "find (\<lambda>b. b_user_id b = u_id cu \<and> year (month_start_date b) = y \<and>
                    month (month_start_date b) = m) (budgets db) = None"
  shows "download_statement ops clock db session (Some y) (Some m) =
     (if \<not> (c_int y \<and> c_int m) then Raised OverflowError
      else if 1 \<le> y \<and> y \<le> 9999 \<and> 1 \<le> m \<and> m \<le> 12
      then Redirect ''index'' [NoDataForMonth \<lparr>year = y, month = m, day = 1\<rparr>]
      else Raised ValueError)"
proof -
  have d: "1 \<le> m \<Longrightarrow> m \<le> 12 \<Longrightarrow> 1 \<le> days_in_month y m"
    using days_in_month_bounds[of m y] by simp
  have "date_new y m 1 =
     (if \<not> (c_int y \<and> c_int m) then Inl OverflowError
      else if 1 \<le> y \<and> y \<le> 9999 \<and> 1 \<le> m \<and> m \<le> 12
      then Inr \<lparr>year = y, month = m, day = 1\<rparr>
      else Inl ValueError)"
    using d by (auto simp add: date_new_def c_int_def)
  then show ?thesis
    using assms by (simp add: download_statement_def)
qed

text \<open>
  Claim C7 at the request \<^verbatim>\<open>/download_statement?year=2024&month=13\<close> of a logged-in user
  who has no allocation starting in such a month: the route raises \<^verbatim>\<open>ValueError\<close> instead
  of reporting that there is no data, while the same request for February 2024 is
  answered with the message and the redirect.
\<close>

theorem download_statement_month_13_raises:
  "current_user demo_db (Some 1) = Some demo_user \<and>
   find (\<lambda>b. b_user_id b = u_id demo_user \<and> year (month_start_date b) = 2024 \<and>
              month (month_start_date b) = 13) (budgets demo_db) = None \<and>
   download_statement demo_ops demo_clock demo_db (Some 1) (Some 2024) (Some 13)
     = Raised ValueError \<and>
   download_statement demo_ops demo_clock demo_db (Some 1) (Some 2024) (Some 2)
     = Redirect ''index'' [NoDataForMonth \<lparr>year = 2024, month = 2, day = 1\<rparr>]"
proof -
  have c: "current_user demo_db (Some 1) = Some demo_user" by (simp add: demo_eval)
  have f: "find (\<lambda>b. b_user_id b = u_id demo_user \<and> year (month_start_date b) = 2024 \<and>
              month (month_start_date b) = 13) (budgets demo_db) = None"
    "find (\<lambda>b. b_user_id b = u_id demo_user \<and> year (month_start_date b) = 2024 \<and>
              month (month_start_date b) = 2) (budgets demo_db) = None"
    by (simp_all add: demo_eval)
  show ?thesis
    using download_no_allocation_month[OF c _ _ f(1), of demo_ops demo_clock]
      download_no_allocation_month[OF c _ _ f(2), of demo_ops demo_clock] c f(1)
    by (simp add: c_int_def)
qed


section \<open>Allocations per user and cycle\<close>

lemma fold_max_lower: "(a::nat) \<le> fold max xs a"
proof (induction xs arbitrary: a)
  case Nil
  then show ?case by simp
next
  case (Cons y ys)
  have "a \<le> max y a" by simp
  also have "\<dots> \<le> fold max ys (max y a)" by (rule Cons.IH)
  finally show ?case by simp
qed

lemma fold_max_upper: "x \<in> set xs \<Longrightarrow> (x::nat) \<le> fold max xs a"
proof (induction xs arbitrary: a)
  case Nil
  then show ?case by simp
next
  case (Cons y ys)
  show ?case
  proof (cases "x = y")
    case True
    have "x \<le> max y a" using True by simp
    also have "\<dots> \<le> fold max ys (max y a)" by (rule fold_max_lower)
    finally show ?thesis by simp
  next
    case False
    then have "x \<in> set ys" using Cons.prems by simp
    then show ?thesis using Cons.IH by simp
  qed
qed

lemma next_id_fresh: "next_id ids \<notin> set ids"
proof
  assume "next_id ids \<in> set ids"
  then have "next_id ids \<le> fold max ids 0" by (rule fold_max_upper)
  then show False by (simp add: next_id_def)
qed

lemma current_user_member:
  "current_user db session = Some cu \<Longrightarrow> cu \<in> set (users db)"
  by (auto simp add: current_user_def load_user_def find_Some_iff split: option.splits)

lemma register_budgets_owned:
  "budgets_owned db \<Longrightarrow>
     budgets_owned (fst (register ops clock db method uname pw_hash salary billing_cycle))"
  by (auto simp add: register_def budgets_owned_def Let_def split: sum.splits if_splits)

lemma set_budget_budgets_owned:
  "budgets_owned db \<Longrightarrow> budgets_owned (fst (set_budget ops clock db session method salary))"
  by (auto simp add: set_budget_def budgets_owned_def dest: current_user_member
      split: option.splits sum.splits if_splits)

lemma add_transaction_budgets_owned:
  "budgets_owned db \<Longrightarrow>
     budgets_owned (fst (add_transaction ops clock clock_time db session amount_field descr))"
  by (auto simp add: add_transaction_def budgets_owned_def
      split: option.splits sum.splits if_splits)

lemma update_profile_users:
  "map u_id (users (fst (update_profile db session billing_cycle))) = map u_id (users db)"
  by (auto simp add: update_profile_def comp_def split: option.splits sum.splits if_splits
      intro!: map_cong)

lemma update_profile_budgets:
  "budgets (fst (update_profile db session billing_cycle)) = budgets db"
  by (auto simp add: update_profile_def split: option.splits sum.splits if_splits)

lemma update_profile_budgets_owned:
  "budgets_owned db \<Longrightarrow> budgets_owned (fst (update_profile db session billing_cycle))"
  unfolding budgets_owned_def update_profile_users update_profile_budgets .

lemma reachable_budgets_owned: "reachable ops db \<Longrightarrow> budgets_owned db"
proof (induction rule: reachable.induct)
  case reach_empty
  then show ?case by (simp add: budgets_owned_def empty_db_def)
next
  case (reach_register db clock verb uname pw_hash salary billing_cycle)
  then show ?case by (simp add: register_budgets_owned)
next
  case (reach_set_budget db clock session verb salary)
  then show ?case by (simp add: set_budget_budgets_owned)
next
  case (reach_add_transaction db clock clock_time session amount_field descr)
  then show ?case by (simp add: add_transaction_budgets_owned)
next
  case (reach_update_profile db session billing_cycle)
  then show ?case by (simp add: update_profile_budgets_owned)
qed

lemma register_unique:
  assumes "budgets_owned db" "unique_allocations db"
  shows "unique_allocations (fst (register ops clock db method uname pw_hash salary billing_cycle))"
proof -
  define k where "k = next_id (map u_id (users db))"
  have "\<And>b. b \<in> set (budgets db) \<Longrightarrow> b_user_id b \<noteq> k"
    using assms(1) next_id_fresh[of "map u_id (users db)"] unfolding budgets_owned_def k_def
    by metis
  then have fresh: "\<And>cs. (k, cs) \<notin> set (map (\<lambda>b. (b_user_id b, month_start_date b)) (budgets db))"
    by auto
  show ?thesis
    using assms(2) fresh
    by (simp add: register_def unique_allocations_def Let_def k_def[symmetric]
        split: sum.splits if_splits)
qed

lemma set_budget_unique:
  assumes "unique_allocations db"
    and "\<And>cu cs. current_user db session = Some cu \<Longrightarrow>
           get_current_cycle_start clock (salary_credit_day cu) None = Inr cs \<Longrightarrow>
           budget_for db (u_id cu) cs = None"
  shows "unique_allocations (fst (set_budget ops clock db session method salary))"
proof (cases "current_user db session")
  case None
  then show ?thesis using assms(1) by (simp add: set_budget_def)
next
  case (Some cu)
  show ?thesis
  proof (cases "get_current_cycle_start clock (salary_credit_day cu) None")
    case (Inl e)
    then show ?thesis using assms(1) Some by (simp add: set_budget_def)
  next
    case (Inr cs)
    have "budget_for db (u_id cu) cs = None" using assms(2)[OF Some Inr] .
    then have "(u_id cu, cs) \<notin> set (map (\<lambda>b. (b_user_id b, month_start_date b)) (budgets db))"
      by (auto simp add: budget_for_def find_None_iff)
    then show ?thesis
      using assms(1) Some Inr
      by (auto simp add: set_budget_def unique_allocations_def split: sum.splits if_splits)
  qed
qed

lemma add_transaction_unique:
  "unique_allocations db \<Longrightarrow>
     unique_allocations (fst (add_transaction ops clock clock_time db session amount_field descr))"
  by (auto simp add: add_transaction_def unique_allocations_def
      split: option.splits sum.splits if_splits)

lemma update_profile_unique:
  "unique_allocations db \<Longrightarrow> unique_allocations (fst (update_profile db session billing_cycle))"
  by (simp add: unique_allocations_def update_profile_budgets)

text \<open>
  \<^const>\<open>set_budget\<close> looks for no existing record: a POST of a logged-in user whose cycle
  start resolves and whose salary field is a float the database stores appends a record.
\<close>

lemma set_budget_appends:
  assumes "current_user db session = Some cu"
    and "get_current_cycle_start clock (salary_credit_day cu) None = Inr cs"
    and "\<not> f_isnan ops s"
  shows "set_budget ops clock db session POST (Inr s) =
           (db\<lparr>budgets := budgets db @
                  [\<lparr>b_id = next_id (map b_id (budgets db)), b_user_id = u_id cu,
                    month_start_date = cs, salary_credited = s\<rparr>]\<rparr>,
            Redirect ''index'' [])"
  using assms by (simp add: set_budget_def)

lemma budget_for_Some_key:
  assumes "budget_for db uid cs \<noteq> None"
  shows "(uid, cs) \<in> set (map (\<lambda>b. (b_user_id b, month_start_date b)) (budgets db))"
proof -
  from assms obtain b where "budget_for db uid cs = Some b" by auto
  then have "b \<in> set (budgets db) \<and> b_user_id b = uid \<and> month_start_date b = cs"
    by (auto simp add: budget_for_def find_Some_iff)
  then show ?thesis by force
qed

lemma demo_budget_twice_eq:
  "demo_budget_twice =
     \<lparr>users = [\<lparr>u_id = 1, username = ''asha'', password_hash = ''pbkdf2'',
                 salary_credit_day = 8\<rparr>],
      budgets = [\<lparr>b_id = 1, b_user_id = 1,
                   month_start_date = \<lparr>year = 2024, month = 3, day = 8\<rparr>,
                   salary_credited = 1000\<rparr>,
                 \<lparr>b_id = 2, b_user_id = 1,
                   month_start_date = \<lparr>year = 2024, month = 3, day = 8\<rparr>,
                   salary_credited = 500\<rparr>],
      transactions = []\<rparr>"
  by (simp add: demo_budget_twice_def demo_registered_eq set_budget_def current_user_def
      load_user_def next_id_def get_current_cycle_start_def get_actual_day_def monthrange_def
      date_eval del: One_nat_def)

lemma demo_registered_reachable: "reachable demo_ops demo_registered"
  unfolding demo_registered_def
  by (rule reach_register[OF reach_empty]) (simp add: date_eval)

text \<open>
  Claim C6, as stated, says that at most one allocation exists per (user, cycle start) in
  every reachable state. \<^const>\<open>set_budget\<close> inserts without looking for an existing row:
  a registration on 2024-03-10 followed by a budget submission on 2024-03-11 leaves two
  allocations of user 1 for the cycle starting 2024-03-08.
\<close>

theorem second_set_budget_duplicates_allocation_counterexample:
  "reachable demo_ops demo_budget_twice \<and> \<not> unique_allocations demo_budget_twice \<and>
   map (\<lambda>b. (b_user_id b, month_start_date b)) (budgets demo_budget_twice)
     = [(1, \<lparr>year = 2024, month = 3, day = 8\<rparr>), (1, \<lparr>year = 2024, month = 3, day = 8\<rparr>)]"
proof -
  have "reachable demo_ops demo_budget_twice"
    unfolding demo_budget_twice_def
    by (rule reach_set_budget[OF demo_registered_reachable]) (simp add: date_eval)
  then show ?thesis
    by (simp add: demo_budget_twice_eq unique_allocations_def)
qed

text \<open>
  Claim C6, amended. The code keeps no allocation unique: a \<^const>\<open>set_budget\<close> POST of a
  logged-in user whose cycle start resolves and whose salary field is a float other than
  NaN appends a new record for (user, resolved cycle start), whether or not the user has
  one already, and when she has, the database it leaves holds two records for the same
  (user, cycle start). What does hold: the empty database has at most one allocation per
  (user, cycle start); from every reachable state that has, \<^const>\<open>register\<close>,
  \<^const>\<open>add_transaction\<close> and \<^const>\<open>update_profile\<close> lead to a state that has, and so does
  \<^const>\<open>set_budget\<close> whenever the requesting user has no allocation yet for the cycle start
  resolved at that moment (the situation in which \<^const>\<open>index\<close> sends the user to the
  budget form).
\<close>

theorem writes_preserve_unique_allocations:
  "unique_allocations empty_db
   \<and> (reachable ops db \<and> unique_allocations db \<longrightarrow>
        unique_allocations
          (fst (register ops clock db verb uname pw_hash salary billing_cycle))
      \<and> unique_allocations
          (fst (add_transaction ops clock clock_time db session amount_field descr))
      \<and> unique_allocations (fst (update_profile db session profile_field))
      \<and> ((\<forall>cu cs. current_user db session = Some cu \<and>
                  get_current_cycle_start clock (salary_credit_day cu) None = Inr cs \<longrightarrow>
                  budget_for db (u_id cu) cs = None) \<longrightarrow>
          unique_allocations (fst (set_budget ops clock db session verb budget_field))))
   \<and> (current_user db session = Some cu \<and>
      get_current_cycle_start clock (salary_credit_day cu) None = Inr cs \<and> \<not> f_isnan ops s \<longrightarrow>
        set_budget ops clock db session POST (Inr s) =
          (db\<lparr>budgets := budgets db @
                 [\<lparr>b_id = next_id (map b_id (budgets db)), b_user_id = u_id cu,
                   month_start_date = cs, salary_credited = s\<rparr>]\<rparr>,
           Redirect ''index'' [])
      \<and> (budget_for db (u_id cu) cs \<noteq> None \<longrightarrow>
           \<not> unique_allocations (fst (set_budget ops clock db session POST (Inr s)))))"
proof (intro conjI impI)
  show "unique_allocations empty_db" by (simp add: unique_allocations_def empty_db_def)
next
  assume a: "reachable ops db \<and> unique_allocations db"
  then have "budgets_owned db" by (auto dest: reachable_budgets_owned)
  with a show "unique_allocations
      (fst (register ops clock db verb uname pw_hash salary billing_cycle))"
    by (simp add: register_unique)
  from a show "unique_allocations
      (fst (add_transaction ops clock clock_time db session amount_field descr))"
    by (simp add: add_transaction_unique)
  from a show "unique_allocations (fst (update_profile db session profile_field))"
    by (simp add: update_profile_unique)
  assume "\<forall>cu cs. current_user db session = Some cu \<and>
                  get_current_cycle_start clock (salary_credit_day cu) None = Inr cs \<longrightarrow>
                  budget_for db (u_id cu) cs = None"
  with a show "unique_allocations (fst (set_budget ops clock db session verb budget_field))"
    by (intro set_budget_unique) auto
next
  assume b: "current_user db session = Some cu \<and>
      get_current_cycle_start clock (salary_credit_day cu) None = Inr cs \<and> \<not> f_isnan ops s"
  then show e: "set_budget ops clock db session POST (Inr s) =
          (db\<lparr>budgets := budgets db @
                 [\<lparr>b_id = next_id (map b_id (budgets db)), b_user_id = u_id cu,
                   month_start_date = cs, salary_credited = s\<rparr>]\<rparr>,
           Redirect ''index'' [])"
    by (simp add: set_budget_appends)
  assume "budget_for db (u_id cu) cs \<noteq> None"
  from budget_for_Some_key[OF this]
  show "\<not> unique_allocations (fst (set_budget ops clock db session POST (Inr s)))"
    by (simp add: e unique_allocations_def)
qed

theorem writes_preserve_unique_allocations_witness:
  "reachable demo_ops demo_registered \<and> unique_allocations demo_registered \<and>
   current_user demo_registered (Some 1)
     = Some \<lparr>u_id = 1, username = ''asha'', password_hash = ''pbkdf2'', salary_credit_day = 8\<rparr> \<and>
   get_current_cycle_start \<lparr>year = 2024, month = 4, day = 10\<rparr> 8 None
     = Inr \<lparr>year = 2024, month = 4, day = 8\<rparr> \<and>
   budget_for demo_registered 1 \<lparr>year = 2024, month = 4, day = 8\<rparr> = None \<and>
   unique_allocations
     (fst (set_budget demo_ops \<lparr>year = 2024, month = 4, day = 10\<rparr> demo_registered (Some 1)
        POST (Inr 900))) \<and>
   unique_allocations
     (fst (register demo_ops \<lparr>year = 2024, month = 4, day = 10\<rparr> demo_registered POST ''ravi''
        ''scrypt'' (Inr 800) (Inr 31))) \<and>
   unique_allocations
     (fst (add_transaction demo_ops \<lparr>year = 2024, month = 4, day = 10\<rparr> (9, 30, 0, 0)
        demo_registered (Some 1) (Inr 12) (Some ''tea''))) \<and>
   unique_allocations (fst (update_profile demo_registered (Some 1) (Some (Inr 15)))) \<and>
   get_current_cycle_start \<lparr>year = 2024, month = 3, day = 11\<rparr> 8 None
     = Inr \<lparr>year = 2024, month = 3, day = 8\<rparr> \<and>
   \<not> f_isnan demo_ops 500 \<and>
   budget_for demo_registered 1 \<lparr>year = 2024, month = 3, day = 8\<rparr> \<noteq> None \<and>
   set_budget demo_ops \<lparr>year = 2024, month = 3, day = 11\<rparr> demo_registered (Some 1) POST
       (Inr 500) =
     (demo_registered\<lparr>budgets := budgets demo_registered @
         [\<lparr>b_id = next_id (map b_id (budgets demo_registered)), b_user_id = 1,
           month_start_date = \<lparr>year = 2024, month = 3, day = 8\<rparr>, salary_credited = 500\<rparr>]\<rparr>,
      Redirect ''index'' []) \<and>
   \<not> unique_allocations
       (fst (set_budget demo_ops \<lparr>year = 2024, month = 3, day = 11\<rparr> demo_registered (Some 1)
          POST (Inr 500)))"
proof -
  let ?cu = "\<lparr>u_id = 1, username = ''asha'', password_hash = ''pbkdf2'',
               salary_credit_day = 8\<rparr>"
  have u: "unique_allocations demo_registered"
    by (simp add: demo_registered_eq unique_allocations_def)
  have c: "current_user demo_registered (Some 1) = Some ?cu"
    by (simp add: demo_registered_eq current_user_def load_user_def)
  have g: "get_current_cycle_start \<lparr>year = 2024, month = 4, day = 10\<rparr> 8 None
     = Inr \<lparr>year = 2024, month = 4, day = 8\<rparr>"
    "get_current_cycle_start \<lparr>year = 2024, month = 3, day = 11\<rparr> 8 None
     = Inr \<lparr>year = 2024, month = 3, day = 8\<rparr>"
    by (simp_all add: get_current_cycle_start_def get_actual_day_def monthrange_def date_eval)
  have b: "budget_for demo_registered 1 \<lparr>year = 2024, month = 4, day = 8\<rparr> = None"
    "budget_for demo_registered 1 \<lparr>year = 2024, month = 3, day = 8\<rparr> \<noteq> None"
    by (simp_all add: demo_registered_eq budget_for_def)
  note w1 = writes_preserve_unique_allocations[where ops = demo_ops and db = demo_registered
        and clock = "\<lparr>year = 2024, month = 4, day = 10\<rparr>" and verb = POST
        and uname = "''ravi''" and pw_hash = "''scrypt''" and salary = "Inr 800"
        and billing_cycle = "Inr 31" and clock_time = "(9, 30, 0, 0)" and session = "Some 1"
        and amount_field = "Inr 12" and descr = "Some ''tea''"
        and profile_field = "Some (Inr 15)" and budget_field = "Inr 900"
        and cu = ?cu and cs = "\<lparr>year = 2024, month = 4, day = 8\<rparr>" and s = 900]
  note w2 = writes_preserve_unique_allocations[where ops = demo_ops and db = demo_registered
        and clock = "\<lparr>year = 2024, month = 3, day = 11\<rparr>" and verb = POST
        and uname = "''ravi''" and pw_hash = "''scrypt''" and salary = "Inr 800"
        and billing_cycle = "Inr 31" and clock_time = "(9, 30, 0, 0)" and session = "Some 1"
        and amount_field = "Inr 12" and descr = "Some ''tea''"
        and profile_field = "Some (Inr 15)" and budget_field = "Inr 900"
        and cu = ?cu and cs = "\<lparr>year = 2024, month = 3, day = 8\<rparr>" and s = 500]
  have p1: "unique_allocations
     (fst (set_budget demo_ops \<lparr>year = 2024, month = 4, day = 10\<rparr> demo_registered (Some 1)
        POST (Inr 900))) \<and>
   unique_allocations
     (fst (register demo_ops \<lparr>year = 2024, month = 4, day = 10\<rparr> demo_registered POST ''ravi''
        ''scrypt'' (Inr 800) (Inr 31))) \<and>
   unique_allocations
     (fst (add_transaction demo_ops \<lparr>year = 2024, month = 4, day = 10\<rparr> (9, 30, 0, 0)
        demo_registered (Some 1) (Inr 12) (Some ''tea''))) \<and>
   unique_allocations (fst (update_profile demo_registered (Some 1) (Some (Inr 15))))"
    using demo_registered_reachable u c g(1) b(1) w1[THEN conjunct2, THEN conjunct1] by simp
  have q: "current_user demo_registered (Some 1) = Some ?cu \<and>
      get_current_cycle_start \<lparr>year = 2024, month = 3, day = 11\<rparr> (salary_credit_day ?cu) None
        = Inr \<lparr>year = 2024, month = 3, day = 8\<rparr> \<and> \<not> f_isnan demo_ops 500"
    using c g(2) by simp
  have q': "budget_for demo_registered (u_id ?cu) \<lparr>year = 2024, month = 3, day = 8\<rparr> \<noteq> None"
    using b(2) by simp
  note p2 = w2[THEN conjunct2, THEN conjunct2, THEN mp, OF q]
  have e: "set_budget demo_ops \<lparr>year = 2024, month = 3, day = 11\<rparr> demo_registered (Some 1) POST
       (Inr 500) =
     (demo_registered\<lparr>budgets := budgets demo_registered @
         [\<lparr>b_id = next_id (map b_id (budgets demo_registered)), b_user_id = 1,
           month_start_date = \<lparr>year = 2024, month = 3, day = 8\<rparr>, salary_credited = 500\<rparr>]\<rparr>,
      Redirect ''index'' [])"
    using p2[THEN conjunct1] by simp
  have n: "\<not> unique_allocations
       (fst (set_budget demo_ops \<lparr>year = 2024, month = 3, day = 11\<rparr> demo_registered (Some 1)
          POST (Inr 500)))"
    using p2[THEN conjunct2, THEN mp, OF q'] .
  have f: "\<not> f_isnan demo_ops 500" by simp
  show ?thesis
    using p1 e n f demo_registered_reachable u c g b by (simp only: simp_thms)
qed


end
